theory Spec2Isabelle
  imports Main "HOL-Library.Sublist"
begin

section \<open>Go values as seen through reflection\<close>

text \<open>
  The package \<^verbatim>\<open>ccopy\<close> walks a value with Go's \<^verbatim>\<open>reflect\<close> package. The
  embedding keeps what the code inspects: the kind of a value, its type (for
  \<^verbatim>\<open>PkgPath\<close>, \<^verbatim>\<open>Name\<close>, \<^verbatim>\<open>Elem\<close>, \<^verbatim>\<open>reflect.New\<close>, \<^verbatim>\<open>reflect.Zero\<close>), struct
  fields with their \<^verbatim>\<open>ccopy\<close> tag and exportedness, and the identity of every
  pointer target, slice backing array and map, which live in an explicit store.
\<close>

datatype basic =
    BBool | BInt | BInt8 | BInt16 | BInt32 | BInt64
  | BUint | BUint8 | BUint16 | BUint32 | BUint64 | BUintptr
  | BFloat32 | BFloat64 | BComplex64 | BComplex128
  | BString | BUnsafePointer

datatype kind =
    KBasic basic
  | KArray | KChan | KFunc | KInterface | KMap | KPtr | KSlice | KStruct

text \<open>\<^verbatim>\<open>Kind.String()\<close> of package reflect.\<close>

fun basic_name :: "basic \<Rightarrow> string" where
  "basic_name BBool = ''bool''"
| "basic_name BInt = ''int''"
| "basic_name BInt8 = ''int8''"
| "basic_name BInt16 = ''int16''"
| "basic_name BInt32 = ''int32''"
| "basic_name BInt64 = ''int64''"
| "basic_name BUint = ''uint''"
| "basic_name BUint8 = ''uint8''"
| "basic_name BUint16 = ''uint16''"
| "basic_name BUint32 = ''uint32''"
| "basic_name BUint64 = ''uint64''"
| "basic_name BUintptr = ''uintptr''"
| "basic_name BFloat32 = ''float32''"
| "basic_name BFloat64 = ''float64''"
| "basic_name BComplex64 = ''complex64''"
| "basic_name BComplex128 = ''complex128''"
| "basic_name BString = ''string''"
| "basic_name BUnsafePointer = ''unsafe.Pointer''"

fun kind_name :: "kind \<Rightarrow> string" where
  "kind_name (KBasic b) = basic_name b"
| "kind_name KArray = ''array''"
| "kind_name KChan = ''chan''"
| "kind_name KFunc = ''func''"
| "kind_name KInterface = ''interface''"
| "kind_name KMap = ''map''"
| "kind_name KPtr = ''ptr''"
| "kind_name KSlice = ''slice''"
| "kind_name KStruct = ''struct''"

text \<open>
  Types. A struct field carries its name, its type, the value of its \<^verbatim>\<open>ccopy\<close> tag
  (\<^verbatim>\<open>Tag.Get("ccopy")\<close>, empty when there is none) and whether it is exported.
  \<open>TNamed\<close> is a defined type with its package path, name and underlying type;
  method sets of interface types are not modelled.
\<close>

datatype ty =
    TBasic basic
  | TArray nat ty
  | TChan ty
  | TFunc "ty list" "ty list"
  | TInterface
  | TMap ty ty
  | TPtr ty
  | TSlice ty
  | TStruct "sfield list"
  | TNamed string string ty
and sfield = StructField (fname: string) (ftype: ty) (ftag: string) (exported: bool)

fun underlying :: "ty \<Rightarrow> ty" where
  "underlying (TNamed p n u) = underlying u"
| "underlying t = t"

fun named :: "ty \<Rightarrow> bool" where
  "named (TNamed p n u) = True"
| "named (TBasic b) = True"
| "named t = False"

fun PkgPath :: "ty \<Rightarrow> string" where
  "PkgPath (TNamed p n u) = p"
| "PkgPath t = ''''"

fun Name :: "ty \<Rightarrow> string" where
  "Name (TNamed p n u) = n"
| "Name (TBasic b) = basic_name b"
| "Name t = ''''"

fun kind_of :: "ty \<Rightarrow> kind" where
  "kind_of (TBasic b) = KBasic b"
| "kind_of (TArray n t) = KArray"
| "kind_of (TChan t) = KChan"
| "kind_of (TFunc as rs) = KFunc"
| "kind_of TInterface = KInterface"
| "kind_of (TMap k t) = KMap"
| "kind_of (TPtr t) = KPtr"
| "kind_of (TSlice t) = KSlice"
| "kind_of (TStruct fs) = KStruct"
| "kind_of (TNamed p n u) = kind_of u"

text \<open>\<^verbatim>\<open>Type.Elem()\<close>, \<^verbatim>\<open>Type.Key()\<close>, the fields of a struct type, \<^verbatim>\<open>Type.Len()\<close>.\<close>

fun Elem_ty :: "ty \<Rightarrow> ty" where
  "Elem_ty (TArray n t) = t"
| "Elem_ty (TChan t) = t"
| "Elem_ty (TMap k t) = t"
| "Elem_ty (TPtr t) = t"
| "Elem_ty (TSlice t) = t"
| "Elem_ty (TNamed p n u) = Elem_ty u"
| "Elem_ty t = t"

fun Key_ty :: "ty \<Rightarrow> ty" where
  "Key_ty (TMap k t) = k"
| "Key_ty (TNamed p n u) = Key_ty u"
| "Key_ty t = t"

fun fields_of :: "ty \<Rightarrow> sfield list" where
  "fields_of (TStruct fs) = fs"
| "fields_of (TNamed p n u) = fields_of u"
| "fields_of t = []"

fun Len_ty :: "ty \<Rightarrow> nat" where
  "Len_ty (TArray n t) = n"
| "Len_ty (TNamed p n u) = Len_ty u"
| "Len_ty t = 0"

text \<open>
  Values. Every value carries its type. Scalars keep their payload; a float is
  its sign bit and its other bits (exponent and mantissa), so that the two
  zeros of IEEE 754 are the floats whose other bits are 0, and a complex number
  is two floats. Channels and functions are handles; a pointer, a slice and a map refer to a
  cell of the store by its address. A slice header is base address, offset into
  the backing array, length and capacity.
\<close>

type_synonym addr = nat

datatype flt = Flt (fneg: bool) (fbits: nat)

datatype scalar =
    SBool bool | SInt int | SUint nat | SFloat flt | SComplex flt flt
  | SString string | SPointer nat

datatype slicehdr = SliceHdr (sbase: addr) (soff: nat) (slen: nat) (scap: nat)

datatype val =
    VBasic ty scalar
  | VArray ty "val list"
  | VChan ty "nat option"
  | VFunc ty "nat option"
  | VInterface ty "val option"
  | VMap ty "addr option"
  | VPtr ty "addr option"
  | VSlice ty "slicehdr option"
  | VStruct ty "val list"

fun type_of :: "val \<Rightarrow> ty" where
  "type_of (VBasic t s) = t"
| "type_of (VArray t vs) = t"
| "type_of (VChan t c) = t"
| "type_of (VFunc t f) = t"
| "type_of (VInterface t x) = t"
| "type_of (VMap t m) = t"
| "type_of (VPtr t p) = t"
| "type_of (VSlice t s) = t"
| "type_of (VStruct t vs) = t"

fun retype :: "ty \<Rightarrow> val \<Rightarrow> val" where
  "retype t (VBasic _ s) = VBasic t s"
| "retype t (VArray _ vs) = VArray t vs"
| "retype t (VChan _ c) = VChan t c"
| "retype t (VFunc _ f) = VFunc t f"
| "retype t (VInterface _ x) = VInterface t x"
| "retype t (VMap _ m) = VMap t m"
| "retype t (VPtr _ p) = VPtr t p"
| "retype t (VSlice _ s) = VSlice t s"
| "retype t (VStruct _ vs) = VStruct t vs"

definition Kind :: "val \<Rightarrow> kind" where
  "Kind v = kind_of (type_of v)"

text \<open>The zero value of a type: \<^verbatim>\<open>reflect.Zero(t)\<close>, \<^verbatim>\<open>reflect.New(t).Elem()\<close>.\<close>

fun zero_scalar :: "basic \<Rightarrow> scalar" where
  "zero_scalar BBool = SBool False"
| "zero_scalar BInt = SInt 0"
| "zero_scalar BInt8 = SInt 0"
| "zero_scalar BInt16 = SInt 0"
| "zero_scalar BInt32 = SInt 0"
| "zero_scalar BInt64 = SInt 0"
| "zero_scalar BUint = SUint 0"
| "zero_scalar BUint8 = SUint 0"
| "zero_scalar BUint16 = SUint 0"
| "zero_scalar BUint32 = SUint 0"
| "zero_scalar BUint64 = SUint 0"
| "zero_scalar BUintptr = SUint 0"
| "zero_scalar BFloat32 = SFloat (Flt False 0)"
| "zero_scalar BFloat64 = SFloat (Flt False 0)"
| "zero_scalar BComplex64 = SComplex (Flt False 0) (Flt False 0)"
| "zero_scalar BComplex128 = SComplex (Flt False 0) (Flt False 0)"
| "zero_scalar BString = SString []"
| "zero_scalar BUnsafePointer = SPointer 0"

fun Zero :: "ty \<Rightarrow> val"
  and Zero_fields :: "sfield list \<Rightarrow> val list"
  and Zero_field :: "sfield \<Rightarrow> val" where
  "Zero (TBasic b) = VBasic (TBasic b) (zero_scalar b)"
| "Zero (TArray n t) = VArray (TArray n t) (replicate n (Zero t))"
| "Zero (TChan t) = VChan (TChan t) None"
| "Zero (TFunc as rs) = VFunc (TFunc as rs) None"
| "Zero TInterface = VInterface TInterface None"
| "Zero (TMap k t) = VMap (TMap k t) None"
| "Zero (TPtr t) = VPtr (TPtr t) None"
| "Zero (TSlice t) = VSlice (TSlice t) None"
| "Zero (TStruct fs) = VStruct (TStruct fs) (Zero_fields fs)"
| "Zero (TNamed p n u) = retype (TNamed p n u) (Zero u)"
| "Zero_fields [] = []"
| "Zero_fields (f # fs) = Zero_field f # Zero_fields fs"
| "Zero_field (StructField n t g e) = Zero t"

text \<open>
  \<^verbatim>\<open>Value.IsZero()\<close>: by kind; an array is zero when every element is, a
  struct when every field other than the blank ones (named \<^verbatim>\<open>_\<close>) is, a nilable
  value when it is nil, a float when it compares equal to 0
  (\<^verbatim>\<open>v.Float() == 0\<close>), which both the positive and the negative zero do, and a
  complex number when both its parts do.
\<close>

fun IsZero_scalar :: "scalar \<Rightarrow> bool" where
  "IsZero_scalar (SBool b) = (\<not> b)"
| "IsZero_scalar (SInt i) = (i = 0)"
| "IsZero_scalar (SUint n) = (n = 0)"
| "IsZero_scalar (SFloat f) = (fbits f = 0)"
| "IsZero_scalar (SComplex r i) = (fbits r = 0 \<and> fbits i = 0)"
| "IsZero_scalar (SString s) = (length s = 0)"
| "IsZero_scalar (SPointer p) = (p = 0)"

fun IsZero :: "val \<Rightarrow> bool"
  and IsZero_fields :: "sfield list \<Rightarrow> val list \<Rightarrow> bool" where
  "IsZero (VBasic t s) = IsZero_scalar s"
| "IsZero (VArray t vs) = list_all IsZero vs"
| "IsZero (VChan t c) = (c = None)"
| "IsZero (VFunc t f) = (f = None)"
| "IsZero (VInterface t x) = (x = None)"
| "IsZero (VMap t m) = (m = None)"
| "IsZero (VPtr t p) = (p = None)"
| "IsZero (VSlice t s) = (s = None)"
| "IsZero (VStruct t vs) = IsZero_fields (fields_of t) vs"
| "IsZero_fields (f # fs) (v # vs) = ((fname f = ''_'' \<or> IsZero v) \<and> IsZero_fields fs vs)"
| "IsZero_fields fs vs = True"

text \<open>
  Assignability, as \<^verbatim>\<open>Value.Set\<close>, \<^verbatim>\<open>reflect.Append\<close>, \<^verbatim>\<open>SetMapIndex\<close> and
  \<^verbatim>\<open>Call\<close> check it: identical types, or identical underlying types when one of
  the two is not a named type, or an interface type as the target (every type
  implements it, method sets not being modelled). The assigned value takes the
  target's type; an interface target wraps the dynamic value. \<open>None\<close> is the
  panic of package reflect.
\<close>

definition directlyAssignable :: "ty \<Rightarrow> ty \<Rightarrow> bool" where
  "directlyAssignable T V \<longleftrightarrow>
     T = V \<or> (\<not> (named T \<and> named V) \<and> kind_of T = kind_of V \<and> underlying T = underlying V)"

definition assignTo :: "val \<Rightarrow> ty \<Rightarrow> val option" where
  "assignTo v T =
     (if directlyAssignable T (type_of v) then Some (retype T v)
      else if kind_of T = KInterface then
        (case v of VInterface _ x \<Rightarrow> Some (VInterface T x)
                 | _ \<Rightarrow> Some (VInterface T (Some v)))
      else None)"

section \<open>The store\<close>

text \<open>
  A cell is the target of a pointer, the backing array of a slice, or the
  entries of a map (in iteration order). The store is the list of the cells
  allocated so far; allocation appends, so an address is fresh exactly when it
  is not below the length of the store.
\<close>

datatype cell = CVal val | CArr "val list" | CMap "(val \<times> val) list"

type_synonym heap = "cell list"

definition alloc :: "heap \<Rightarrow> cell \<Rightarrow> addr \<times> heap" where
  "alloc h c = (length h, h @ [c])"

definition lookup :: "heap \<Rightarrow> addr \<Rightarrow> cell option" where
  "lookup h a = (if a < length h then Some (h ! a) else None)"

section \<open>Results, the registry and the reflect operations the copy uses\<close>

text \<open>
  A Go function of result type \<^verbatim>\<open>(reflect.Value, error)\<close> either returns a value
  with a nil error (\<open>Ok\<close>), returns a non-nil error (\<open>Error\<close>: the value returned
  beside it is discarded by every caller, so it is not kept), panics, or does
  not return because the recursion is deeper than the stack allows: the
  recursion of \<^verbatim>\<open>copy\<close> is bounded by a fuel argument, and \<open>Diverge\<close> is the
  result of running out of it. The store comes back with a value and with an
  error.
\<close>

datatype 'a result = Diverge | Panic string | Error heap string | Ok heap 'a

text \<open>
  \<^verbatim>\<open>Config\<close> is \<^verbatim>\<open>map[string]interface{}\<close>. An entry is any value; what the code
  does with it is \<^verbatim>\<open>reflect.ValueOf(fn).Call\<close>, so an entry is modelled by what a
  call of it does: \<open>RFunc ps body\<close> is a function with parameter types \<open>ps\<close>
  whose body, run in a store on its arguments, panics or returns a store and
  its results; \<open>ROther\<close> is an entry that is not a function. A key that is
  absent and a key bound to the nil interface both give \<open>None\<close>.
\<close>

datatype callres = CPanic string | CRet heap "val list"

datatype regval = RFunc "ty list" "heap \<Rightarrow> val list \<Rightarrow> callres" | ROther val

type_synonym config = "string \<Rightarrow> regval option"

text \<open>\<^verbatim>\<open>reflect.ValueOf(fn).Call([]reflect.Value{arg})\<close>.\<close>

fun Call :: "regval \<Rightarrow> heap \<Rightarrow> val \<Rightarrow> callres" where
  "Call (ROther v) h arg = CPanic ''reflect: call of reflect.Value.Call on non-function Value''"
| "Call (RFunc ps body) h arg =
     (case ps of
        [p] \<Rightarrow> (case assignTo arg p of
                  None \<Rightarrow> CPanic ''reflect: Call using argument of wrong type''
                | Some a \<Rightarrow> body h [a])
      | _ \<Rightarrow> CPanic ''reflect: Call with wrong number of input arguments'')"

text \<open>
  \<^verbatim>\<open>Value.Index(i)\<close> of a slice reads the backing array in the store.
\<close>

definition Index_slice :: "heap \<Rightarrow> slicehdr \<Rightarrow> nat \<Rightarrow> val option" where
  "Index_slice h s i =
     (if i < slen s then
        (case lookup h (sbase s) of
           Some (CArr xs) \<Rightarrow> (if soff s + i < length xs then Some (xs ! (soff s + i)) else None)
         | _ \<Rightarrow> None)
      else None)"

text \<open>
  \<^verbatim>\<open>reflect.MakeSlice(t, 0, n)\<close> allocates a backing array of \<open>n\<close> zero elements
  and returns a slice of length 0 and capacity \<open>n\<close> on it.
\<close>

definition MakeSlice :: "heap \<Rightarrow> ty \<Rightarrow> nat \<Rightarrow> heap \<times> slicehdr" where
  "MakeSlice h t n =
     (let (a, h') = alloc h (CArr (replicate n (Zero (Elem_ty t))))
      in (h', SliceHdr a 0 0 n))"

text \<open>
  \<^verbatim>\<open>reflect.Append(s, x)\<close>: the element must be assignable to the element type;
  below capacity it is written into the backing array in place, otherwise the
  elements move to a new, larger backing array (the growth factor of the
  runtime is taken as doubling).
\<close>

definition Append :: "heap \<Rightarrow> ty \<Rightarrow> slicehdr \<Rightarrow> val \<Rightarrow> (heap \<times> slicehdr) option" where
  "Append h t s v =
     (case assignTo v (Elem_ty t) of
        None \<Rightarrow> None
      | Some x \<Rightarrow>
          (case lookup h (sbase s) of
             Some (CArr xs) \<Rightarrow>
               (if slen s < scap s then
                  Some (h[sbase s := CArr (xs[soff s + slen s := x])],
                        SliceHdr (sbase s) (soff s) (slen s + 1) (scap s))
                else
                  (let n = max (2 * scap s) (slen s + 1);
                       ys = take (slen s) (drop (soff s) xs) @ [x]
                              @ replicate (n - (slen s + 1)) (Zero (Elem_ty t));
                       (a, h') = alloc h (CArr ys)
                   in Some (h', SliceHdr a 0 (slen s + 1) n)))
           | _ \<Rightarrow> None))"

text \<open>
  Go's \<^verbatim>\<open>==\<close> is the identity of the modelled values up to the sign of a float
  zero (the two zeros are equal) and up to the blank fields of a struct (they
  are not compared); \<open>norm_zero\<close> clears that sign and puts the zero value in a
  blank field, so that two comparable values are \<^verbatim>\<open>==\<close> when \<open>norm_zero\<close> gives the
  same for both. The keys of a map are compared so. A NaN, which is not equal
  to itself, is not modelled.
\<close>

fun norm_scalar :: "scalar \<Rightarrow> scalar" where
  "norm_scalar (SFloat f) = SFloat (Flt (fneg f \<and> fbits f \<noteq> 0) (fbits f))"
| "norm_scalar (SComplex r i) =
     SComplex (Flt (fneg r \<and> fbits r \<noteq> 0) (fbits r)) (Flt (fneg i \<and> fbits i \<noteq> 0) (fbits i))"
| "norm_scalar s = s"

fun norm_zero :: "val \<Rightarrow> val"
  and norm_fields :: "sfield list \<Rightarrow> val list \<Rightarrow> val list" where
  "norm_zero (VBasic t s) = VBasic t (norm_scalar s)"
| "norm_zero (VArray t vs) = VArray t (map norm_zero vs)"
| "norm_zero (VStruct t vs) = VStruct t (norm_fields (fields_of t) vs)"
| "norm_zero (VInterface t x) = VInterface t (map_option norm_zero x)"
| "norm_zero (VChan t c) = VChan t c"
| "norm_zero (VFunc t f) = VFunc t f"
| "norm_zero (VMap t m) = VMap t m"
| "norm_zero (VPtr t p) = VPtr t p"
| "norm_zero (VSlice t s) = VSlice t s"
| "norm_fields (f # fs) (v # vs) =
     (if fname f = ''_'' then Zero (ftype f) else norm_zero v) # norm_fields fs vs"
| "norm_fields [] vs = map norm_zero vs"
| "norm_fields fs [] = []"

text \<open>
  \<^verbatim>\<open>Value.SetMapIndex(k, x)\<close> on the entries of a map: the entry of an equal key
  is replaced, with the new key, and a new key is added.
\<close>

fun map_set :: "(val \<times> val) list \<Rightarrow> val \<Rightarrow> val \<Rightarrow> (val \<times> val) list" where
  "map_set [] k x = [(k, x)]"
| "map_set ((k', x') # es) k x =
     (if norm_zero k' = norm_zero k then (k, x) # es else (k', x') # map_set es k x)"

definition SetMapIndex :: "heap \<Rightarrow> ty \<Rightarrow> addr \<Rightarrow> val \<Rightarrow> val \<Rightarrow> heap option" where
  "SetMapIndex h t a k x =
     (case assignTo k (Key_ty t) of
        None \<Rightarrow> None
      | Some k' \<Rightarrow>
          (case assignTo x (Elem_ty t) of
             None \<Rightarrow> None
           | Some x' \<Rightarrow>
               (case lookup h a of
                  Some (CMap es) \<Rightarrow> Some (h[a := CMap (map_set es k' x')])
                | _ \<Rightarrow> None)))"

section \<open>The copy\<close>

text \<open>
  Each strategy of \<^verbatim>\<open>ccopy.go\<close> is a function of the same name. The recursive
  call \<^verbatim>\<open>c.copy\<close> is the parameter \<open>rec\<close>; \<open>copy\<close> below ties the knot with one
  unit of fuel less. A value built by \<^verbatim>\<open>reflect.New(t).Elem()\<close> and returned by
  value (the struct, the array, the interface holder) is a local of the model;
  the cell of \<^verbatim>\<open>copyPointer\<close>, the array of \<^verbatim>\<open>copySlice\<close> and the map of
  \<^verbatim>\<open>copyMap\<close>, to which the result refers, are allocated in the store, in the
  order of the source. A struct, an array and a map are read when the copy
  reaches them; a transformer of the registry is assumed not to write to the
  value being traversed.
\<close>

type_synonym recur = "heap \<Rightarrow> val option \<Rightarrow> val result"

definition copyTime :: "heap \<Rightarrow> val \<Rightarrow> val result" where
  "copyTime h ov = Ok h ov"

text \<open>
  One iteration of the loop of \<^verbatim>\<open>copyStruct\<close>, for the field \<open>fld\<close> whose value
  in \<^verbatim>\<open>ov\<close> is \<open>v\<close>: the result is the value of that field in \<^verbatim>\<open>oc\<close> after the
  iteration. A field that is skipped, or whose new value is zero, keeps the zero
  value that \<^verbatim>\<open>reflect.New\<close> gave it.
\<close>

definition copyField :: "recur \<Rightarrow> config \<Rightarrow> heap \<Rightarrow> sfield \<Rightarrow> val \<Rightarrow> val result" where
  "copyField rec c h fld v =
     (if \<not> exported fld then Ok h (Zero (ftype fld))
      else if ftag fld = [] then
        (case rec h (Some v) of
           Diverge \<Rightarrow> Diverge
         | Panic m \<Rightarrow> Panic m
         | Error h1 e \<Rightarrow> Error h1 e
         | Ok h1 v' \<Rightarrow>
             (if \<not> IsZero v' then
                (case assignTo v' (ftype fld) of
                   None \<Rightarrow> Panic ''reflect.Set: value is not assignable to type''
                 | Some x \<Rightarrow> Ok h1 x)
              else Ok h1 (Zero (ftype fld))))
      else
        (case c (ftag fld) of
           None \<Rightarrow> Error h (''missing copy customiser for: '' @ ftag fld)
         | Some fn \<Rightarrow>
             (case Call fn h v of
                CPanic m \<Rightarrow> Panic m
              | CRet h1 [] \<Rightarrow> Panic ''runtime error: index out of range [0] with length 0''
              | CRet h1 (r0 # rs) \<Rightarrow>
                  (if \<not> IsZero r0 then
                     (case assignTo r0 (ftype fld) of
                        None \<Rightarrow> Panic ''reflect.Set: value is not assignable to type''
                      | Some x \<Rightarrow> Ok h1 x)
                   else Ok h1 (Zero (ftype fld))))))"

text \<open>
  The loop of \<^verbatim>\<open>copyStruct\<close> over the fields, returning the fields of \<^verbatim>\<open>oc\<close>.
\<close>

fun copyFields :: "recur \<Rightarrow> config \<Rightarrow> heap \<Rightarrow> sfield list \<Rightarrow> val list \<Rightarrow> val list result" where
  "copyFields rec c h [] vs = Ok h []"
| "copyFields rec c h (fld # flds) [] = Panic ''reflect: Field index out of range''"
| "copyFields rec c h (fld # flds) (v # vs) =
     (case copyField rec c h fld v of
        Diverge \<Rightarrow> Diverge
      | Panic m \<Rightarrow> Panic m
      | Error h1 e \<Rightarrow> Error h1 e
      | Ok h1 x \<Rightarrow>
          (case copyFields rec c h1 flds vs of
             Diverge \<Rightarrow> Diverge
           | Panic m \<Rightarrow> Panic m
           | Error h2 e \<Rightarrow> Error h2 e
           | Ok h2 ocs \<Rightarrow> Ok h2 (x # ocs)))"

fun copyStruct :: "recur \<Rightarrow> config \<Rightarrow> heap \<Rightarrow> val \<Rightarrow> val result" where
  "copyStruct rec c h (VStruct t vs) =
     (case copyFields rec c h (fields_of t) vs of
        Diverge \<Rightarrow> Diverge
      | Panic m \<Rightarrow> Panic m
      | Error h' e \<Rightarrow> Error h' e
      | Ok h' ocs \<Rightarrow> Ok h' (VStruct t ocs))"
| "copyStruct rec c h ov = Panic ''reflect: call of reflect.Value.NumField on non-struct Value''"

text \<open>
  \<^verbatim>\<open>copyPointer\<close>. The result is \<^verbatim>\<open>reflect.New(ov.Type().Elem())\<close>, whose type is
  the pointer type \<^verbatim>\<open>*Elem\<close>: when the type of \<^verbatim>\<open>ov\<close> is a defined pointer type,
  the result does not have that type but the unnamed one.
\<close>

fun copyPointer :: "recur \<Rightarrow> heap \<Rightarrow> val \<Rightarrow> val result" where
  "copyPointer rec h (VPtr t None) = Ok h (VPtr t None)"
| "copyPointer rec h (VPtr t (Some a)) =
     (case lookup h a of
        Some (CVal w) \<Rightarrow>
          (let (a', h0) = alloc h (CVal (Zero (Elem_ty t))) in
           case rec h0 (Some w) of
             Diverge \<Rightarrow> Diverge
           | Panic m \<Rightarrow> Panic m
           | Error h1 e \<Rightarrow> Error h1 e
           | Ok h1 v \<Rightarrow>
               (if \<not> IsZero v then
                  (case assignTo v (Elem_ty t) of
                     None \<Rightarrow> Panic ''reflect.Set: value is not assignable to type''
                   | Some x \<Rightarrow> Ok (h1[a' := CVal x]) (VPtr (TPtr (Elem_ty t)) (Some a')))
                else Ok h1 (VPtr (TPtr (Elem_ty t)) (Some a'))))
      | _ \<Rightarrow> Panic ''runtime error: invalid memory address or nil pointer dereference'')"
| "copyPointer rec h ov = Panic ''reflect: call of reflect.Value.IsNil on non-pointer Value''"

fun copyInterface :: "recur \<Rightarrow> heap \<Rightarrow> val \<Rightarrow> val result" where
  "copyInterface rec h (VInterface t None) = Ok h (VInterface t None)"
| "copyInterface rec h (VInterface t (Some w)) =
     (case rec h (Some w) of
        Diverge \<Rightarrow> Diverge
      | Panic m \<Rightarrow> Panic m
      | Error h1 e \<Rightarrow> Error h1 e
      | Ok h1 v \<Rightarrow>
          (case assignTo v t of
             None \<Rightarrow> Panic ''reflect.Set: value is not assignable to type''
           | Some x \<Rightarrow> Ok h1 x))"
| "copyInterface rec h ov = Panic ''reflect: call of reflect.Value.IsNil on non-interface Value''"

text \<open>
  The loop of \<^verbatim>\<open>copySlice\<close> over the indices \<open>is\<close>; \<open>s\<close> is the header of \<^verbatim>\<open>ov\<close>
  and \<open>oc\<close> the header of the slice being built.
\<close>

fun copySliceLoop :: "recur \<Rightarrow> heap \<Rightarrow> ty \<Rightarrow> slicehdr \<Rightarrow> slicehdr \<Rightarrow> nat list \<Rightarrow> slicehdr result" where
  "copySliceLoop rec h t s oc [] = Ok h oc"
| "copySliceLoop rec h t s oc (i # is) =
     (case Index_slice h s i of
        None \<Rightarrow> Panic ''reflect: slice index out of range''
      | Some x \<Rightarrow>
          (case rec h (Some x) of
             Diverge \<Rightarrow> Diverge
           | Panic m \<Rightarrow> Panic m
           | Error h1 e \<Rightarrow> Error h1 e
           | Ok h1 v \<Rightarrow>
               (case Append h1 t oc v of
                  None \<Rightarrow> Panic ''reflect.Append: value is not assignable to type''
                | Some (h2, oc') \<Rightarrow> copySliceLoop rec h2 t s oc' is)))"

fun copySlice :: "recur \<Rightarrow> heap \<Rightarrow> val \<Rightarrow> val result" where
  "copySlice rec h (VSlice t None) = Ok h (VSlice t None)"
| "copySlice rec h (VSlice t (Some s)) =
     (let (h0, oc) = MakeSlice h t (slen s) in
      case copySliceLoop rec h0 t s oc [0 ..< slen s] of
        Diverge \<Rightarrow> Diverge
      | Panic m \<Rightarrow> Panic m
      | Error h1 e \<Rightarrow> Error h1 e
      | Ok h1 oc' \<Rightarrow> Ok h1 (VSlice t (Some oc')))"
| "copySlice rec h ov = Panic ''reflect: call of reflect.Value.IsNil on non-slice Value''"

text \<open>
  The loop of \<^verbatim>\<open>copyArray\<close>. \<^verbatim>\<open>slice\<close> is \<^verbatim>\<open>oc.Slice3(0, 0, n)\<close>: a slice of length
  \<open>l\<close> and capacity \<open>n\<close> whose backing array is \<^verbatim>\<open>oc\<close> itself, so an append below
  capacity writes element \<open>l\<close> of \<^verbatim>\<open>oc\<close>. \<open>Some l\<close> is that slice; once an append
  finds it full the slice moves to an array of its own (\<open>None\<close>) and \<^verbatim>\<open>oc\<close> is
  written no more.
\<close>

fun copyArrayLoop :: "recur \<Rightarrow> heap \<Rightarrow> ty \<Rightarrow> val list \<Rightarrow> val list \<Rightarrow> nat option \<Rightarrow> nat list \<Rightarrow> val list result" where
  "copyArrayLoop rec h t vs ocs sl [] = Ok h ocs"
| "copyArrayLoop rec h t vs ocs sl (i # is) =
     (if i < length vs then
        (case rec h (Some (vs ! i)) of
           Diverge \<Rightarrow> Diverge
         | Panic m \<Rightarrow> Panic m
         | Error h1 e \<Rightarrow> Error h1 e
         | Ok h1 v \<Rightarrow>
             (case assignTo v (Elem_ty t) of
                None \<Rightarrow> Panic ''reflect.Append: value is not assignable to type''
              | Some x \<Rightarrow>
                  (case sl of
                     Some l \<Rightarrow>
                       (if l < Len_ty t
                        then copyArrayLoop rec h1 t vs (ocs[l := x]) (Some (l + 1)) is
                        else copyArrayLoop rec h1 t vs ocs None is)
                   | None \<Rightarrow> copyArrayLoop rec h1 t vs ocs None is)))
      else Panic ''reflect: array index out of range'')"

fun copyArray :: "recur \<Rightarrow> heap \<Rightarrow> val \<Rightarrow> val result" where
  "copyArray rec h (VArray t vs) =
     (case copyArrayLoop rec h t vs (replicate (Len_ty t) (Zero (Elem_ty t))) (Some 0) [0 ..< Len_ty t] of
        Diverge \<Rightarrow> Diverge
      | Panic m \<Rightarrow> Panic m
      | Error h1 e \<Rightarrow> Error h1 e
      | Ok h1 ocs \<Rightarrow> Ok h1 (VArray t ocs))"
| "copyArray rec h ov = Panic ''reflect: call of reflect.Value.Len on non-array Value''"

text \<open>
  The loop of \<^verbatim>\<open>copyMap\<close> over the entries of \<^verbatim>\<open>ov\<close>; \<open>a\<close> is the address of the
  map being built.
\<close>

fun copyMapLoop :: "recur \<Rightarrow> heap \<Rightarrow> ty \<Rightarrow> addr \<Rightarrow> (val \<times> val) list \<Rightarrow> unit result" where
  "copyMapLoop rec h t a [] = Ok h ()"
| "copyMapLoop rec h t a ((k, x) # es) =
     (case rec h (Some k) of
        Diverge \<Rightarrow> Diverge
      | Panic m \<Rightarrow> Panic m
      | Error h1 e \<Rightarrow> Error h1 e
      | Ok h1 k' \<Rightarrow>
          (case rec h1 (Some x) of
             Diverge \<Rightarrow> Diverge
           | Panic m \<Rightarrow> Panic m
           | Error h2 e \<Rightarrow> Error h2 e
           | Ok h2 x' \<Rightarrow>
               (case SetMapIndex h2 t a k' x' of
                  None \<Rightarrow> Panic ''reflect.Value.SetMapIndex: value is not assignable to type''
                | Some h3 \<Rightarrow> copyMapLoop rec h3 t a es)))"

fun copyMap :: "recur \<Rightarrow> heap \<Rightarrow> val \<Rightarrow> val result" where
  "copyMap rec h (VMap t None) = Ok h (VMap t None)"
| "copyMap rec h (VMap t (Some a)) =
     (case lookup h a of
        Some (CMap es) \<Rightarrow>
          (let (a', h0) = alloc h (CMap []) in
           case copyMapLoop rec h0 t a' es of
             Diverge \<Rightarrow> Diverge
           | Panic m \<Rightarrow> Panic m
           | Error h1 e \<Rightarrow> Error h1 e
           | Ok h1 u \<Rightarrow> Ok h1 (VMap t (Some a')))
      | _ \<Rightarrow> Panic ''runtime error: invalid memory address or nil pointer dereference'')"
| "copyMap rec h ov = Panic ''reflect: call of reflect.Value.IsNil on non-map Value''"

text \<open>
  The kinds of the last \<^verbatim>\<open>case\<close> of the switch of \<^verbatim>\<open>copy\<close>, in the order of the
  source.
\<close>

definition passthrough_kinds :: "kind list" where
  "passthrough_kinds =
     [KBasic BInt, KBasic BString, KBasic BInt64, KBasic BFloat64, KBasic BBool,
      KBasic BUint, KBasic BUint64,
      KFunc, KChan, KBasic BFloat32,
      KBasic BInt8, KBasic BInt16, KBasic BInt32,
      KBasic BComplex64, KBasic BComplex128,
      KBasic BUint8, KBasic BUint16, KBasic BUint32]"

definition is_time :: "ty \<Rightarrow> bool" where
  "is_time t \<longleftrightarrow> PkgPath t = ''time'' \<and> Name t = ''Time''"

text \<open>
  \<^verbatim>\<open>Config.copy\<close>. \<open>None\<close> is the invalid \<^verbatim>\<open>reflect.Value\<close>. The first argument
  after the registry bounds the depth of the recursion.
\<close>

fun copy :: "config \<Rightarrow> nat \<Rightarrow> heap \<Rightarrow> val option \<Rightarrow> val result" where
  "copy c 0 h ov = Diverge"
| "copy c (Suc n) h None = Error h ''invalid value''"
| "copy c (Suc n) h (Some ov) =
     (if is_time (type_of ov) then copyTime h ov
      else if Kind ov = KStruct then copyStruct (copy c n) c h ov
      else if Kind ov = KPtr then copyPointer (copy c n) h ov
      else if Kind ov = KSlice then copySlice (copy c n) h ov
      else if Kind ov = KMap then copyMap (copy c n) h ov
      else if Kind ov = KInterface then copyInterface (copy c n) h ov
      else if Kind ov = KArray then copyArray (copy c n) h ov
      else if Kind ov \<in> set passthrough_kinds then Ok h ov
      else Panic (''unsupported type: '' @ kind_name (Kind ov)))"

text \<open>
  \<^verbatim>\<open>Config.Copy\<close>. The argument \<^verbatim>\<open>obj interface{}\<close> is \<open>None\<close> when it is the nil
  interface; \<^verbatim>\<open>reflect.ValueOf\<close> of it is then the invalid value. The result is
  the pair \<^verbatim>\<open>(interface{}, error)\<close> that the function returns.
\<close>

datatype outcome = Diverged | Panicked string | Returned heap "val option" "string option"

definition ValueOf :: "val option \<Rightarrow> val option" where
  "ValueOf obj = obj"

fun Interface :: "val \<Rightarrow> val option" where
  "Interface (VInterface t x) = x"
| "Interface v = Some v"

definition Copy :: "config \<Rightarrow> nat \<Rightarrow> heap \<Rightarrow> val option \<Rightarrow> outcome" where
  "Copy c n h obj =
     (case copy c n h (ValueOf obj) of
        Diverge \<Rightarrow> Diverged
      | Panic m \<Rightarrow> Panicked m
      | Error h' e \<Rightarrow> Returned h' None (Some e)
      | Ok h' oc \<Rightarrow> Returned h' (Interface oc) None)"

section \<open>Well-formed values\<close>

text \<open>
  \<^verbatim>\<open>Value.IsNil()\<close> for the kinds that have a nil.
\<close>

fun IsNil :: "val \<Rightarrow> bool" where
  "IsNil (VChan t c) = (c = None)"
| "IsNil (VFunc t f) = (f = None)"
| "IsNil (VInterface t x) = (x = None)"
| "IsNil (VMap t m) = (m = None)"
| "IsNil (VPtr t p) = (p = None)"
| "IsNil (VSlice t s) = (s = None)"
| "IsNil v = False"

text \<open>
  A \<^verbatim>\<open>reflect.Value\<close> of Go has the representation of the kind of its type, and
  the only type of package \<^verbatim>\<open>time\<close> named \<^verbatim>\<open>Time\<close> is a struct. The datatype of
  values can write other combinations; \<open>kind_ok\<close> excludes them.
\<close>

fun scalar_ok :: "basic \<Rightarrow> scalar \<Rightarrow> bool" where
  "scalar_ok b (SBool x) = (b = BBool)"
| "scalar_ok b (SInt i) = (b \<in> set [BInt, BInt8, BInt16, BInt32, BInt64])"
| "scalar_ok b (SUint n) = (b \<in> set [BUint, BUint8, BUint16, BUint32, BUint64, BUintptr])"
| "scalar_ok b (SFloat f) = (b \<in> set [BFloat32, BFloat64])"
| "scalar_ok b (SComplex r i) = (b \<in> set [BComplex64, BComplex128])"
| "scalar_ok b (SString s) = (b = BString)"
| "scalar_ok b (SPointer p) = (b = BUnsafePointer)"

fun kind_ok :: "val \<Rightarrow> bool" where
  "kind_ok (VBasic t s) = (case kind_of t of KBasic b \<Rightarrow> scalar_ok b s \<and> \<not> is_time t | _ \<Rightarrow> False)"
| "kind_ok (VArray t vs) = (kind_of t = KArray \<and> \<not> is_time t)"
| "kind_ok (VChan t c) = (kind_of t = KChan \<and> \<not> is_time t)"
| "kind_ok (VFunc t f) = (kind_of t = KFunc \<and> \<not> is_time t)"
| "kind_ok (VInterface t x) = (kind_of t = KInterface \<and> \<not> is_time t)"
| "kind_ok (VMap t m) = (kind_of t = KMap \<and> \<not> is_time t)"
| "kind_ok (VPtr t p) = (kind_of t = KPtr \<and> \<not> is_time t)"
| "kind_ok (VSlice t s) = (kind_of t = KSlice \<and> \<not> is_time t)"
| "kind_ok (VStruct t vs) = (kind_of t = KStruct)"

text \<open>
  A value is well typed (without following addresses into the store) when, at
  every level, its representation is that of its kind, an array has the length
  and the element type of its type, a struct has one value of the declared type
  for each field, and an interface holds a value that is not itself of
  interface kind.
\<close>

fun wt :: "val \<Rightarrow> bool" where
  "wt (VArray t vs) =
     (kind_ok (VArray t vs) \<and> length vs = Len_ty t \<and> (\<forall>v \<in> set vs. type_of v = Elem_ty t \<and> wt v))"
| "wt (VInterface t x) =
     (kind_ok (VInterface t x) \<and> (case x of None \<Rightarrow> True | Some w \<Rightarrow> Kind w \<noteq> KInterface \<and> wt w))"
| "wt (VStruct t vs) =
     (kind_ok (VStruct t vs) \<and> list_all2 (\<lambda>f v. type_of v = ftype f \<and> wt v) (fields_of t) vs)"
| "wt v = kind_ok v"

section \<open>Registries and recursive calls that leave existing cells as they are\<close>

text \<open>
  The body of a function of the registry is any function of the store. Such a
  function only allocates when the store it returns has every cell of the store
  it was called in, unchanged: it does not write into memory that exists when
  it is called. A recursive call has the frame property when it leaves every
  existing cell as it is.
\<close>

definition allocates_only :: "config \<Rightarrow> bool" where
  "allocates_only c \<longleftrightarrow>
     (\<forall>tg ps body h args h' rs.
        c tg = Some (RFunc ps body) \<longrightarrow> body h args = CRet h' rs \<longrightarrow> prefix h h')"

definition frame :: "recur \<Rightarrow> bool" where
  "frame rec \<longleftrightarrow> (\<forall>h ov h' v. rec h ov = Ok h' v \<longrightarrow> prefix h h')"

text \<open>
  Two stores are the same except at \<open>a\<close> when the second has every cell of the
  first, with the same content at every address other than \<open>a\<close>.
\<close>

definition same_except :: "addr \<Rightarrow> heap \<Rightarrow> heap \<Rightarrow> bool" where
  "same_except a h h' \<longleftrightarrow>
     length h \<le> length h' \<and> (\<forall>b<length h. b \<noteq> a \<longrightarrow> lookup h' b = lookup h b)"

section \<open>Deep equality, reachable cells and the inputs of the deep-copy property\<close>

text \<open>
  The deep value of a value in a store: what is seen when every pointer, slice
  and map is followed. Two values are deeply equal when they have the same deep
  value. The addresses of the cells do not occur in it; scalars, channels and
  functions occur as they are, up to Go's \<^verbatim>\<open>==\<close> (the sign of a float zero is
  cleared); the keys of a map occur as they are, up to \<^verbatim>\<open>==\<close> too, since two
  maps are deeply equal when equal keys have deeply equal values. The first
  argument bounds the depth to which the store is followed; \<open>None\<close> means that
  the bound was reached or that an address is not that of a cell of the right
  form.
\<close>

datatype tree =
    DLeaf val
  | DNil ty
  | DRef ty tree
  | DSeq ty "tree list"
  | DDict ty "(val \<times> tree) list"
  | DBox ty tree
  | DArr ty "tree list"
  | DRec ty "tree list"

fun readback :: "nat \<Rightarrow> heap \<Rightarrow> val \<Rightarrow> tree option" where
  "readback 0 h v = None"
| "readback (Suc d) h (VBasic t s) = Some (DLeaf (norm_zero (VBasic t s)))"
| "readback (Suc d) h (VChan t c) = Some (DLeaf (VChan t c))"
| "readback (Suc d) h (VFunc t f) = Some (DLeaf (VFunc t f))"
| "readback (Suc d) h (VInterface t None) = Some (DNil t)"
| "readback (Suc d) h (VInterface t (Some w)) = map_option (DBox t) (readback d h w)"
| "readback (Suc d) h (VPtr t None) = Some (DNil t)"
| "readback (Suc d) h (VPtr t (Some a)) =
     (case lookup h a of
        Some (CVal w) \<Rightarrow> map_option (DRef t) (readback d h w)
      | _ \<Rightarrow> None)"
| "readback (Suc d) h (VSlice t None) = Some (DNil t)"
| "readback (Suc d) h (VSlice t (Some s)) =
     (case lookup h (sbase s) of
        Some (CArr xs) \<Rightarrow>
          (if soff s + slen s \<le> length xs
           then map_option (DSeq t) (those (map (readback d h) (take (slen s) (drop (soff s) xs))))
           else None)
      | _ \<Rightarrow> None)"
| "readback (Suc d) h (VMap t None) = Some (DNil t)"
| "readback (Suc d) h (VMap t (Some a)) =
     (case lookup h a of
        Some (CMap es) \<Rightarrow>
          map_option (DDict t)
            (those (map (\<lambda>(k, x). map_option (Pair (norm_zero k)) (readback d h x)) es))
      | _ \<Rightarrow> None)"
| "readback (Suc d) h (VArray t vs) = map_option (DArr t) (those (map (readback d h) vs))"
| "readback (Suc d) h (VStruct t vs) = map_option (DRec t) (those (map (readback d h) vs))"

text \<open>
  The addresses of the cells that a value reaches in a store: its mutable
  substructure (pointer targets, backing arrays of slices, maps).
\<close>

fun reach :: "nat \<Rightarrow> heap \<Rightarrow> val \<Rightarrow> addr set" where
  "reach 0 h v = {}"
| "reach (Suc d) h (VBasic t s) = {}"
| "reach (Suc d) h (VChan t c) = {}"
| "reach (Suc d) h (VFunc t f) = {}"
| "reach (Suc d) h (VInterface t None) = {}"
| "reach (Suc d) h (VInterface t (Some w)) = reach d h w"
| "reach (Suc d) h (VPtr t None) = {}"
| "reach (Suc d) h (VPtr t (Some a)) =
     insert a (case lookup h a of Some (CVal w) \<Rightarrow> reach d h w | _ \<Rightarrow> {})"
| "reach (Suc d) h (VSlice t None) = {}"
| "reach (Suc d) h (VSlice t (Some s)) =
     insert (sbase s)
       (case lookup h (sbase s) of
          Some (CArr xs) \<Rightarrow> (\<Union>x \<in> set (take (slen s) (drop (soff s) xs)). reach d h x)
        | _ \<Rightarrow> {})"
| "reach (Suc d) h (VMap t None) = {}"
| "reach (Suc d) h (VMap t (Some a)) =
     insert a
       (case lookup h a of
          Some (CMap es) \<Rightarrow> (\<Union>(k, x) \<in> set es. reach d h k \<union> reach d h x)
        | _ \<Rightarrow> {})"
| "reach (Suc d) h (VArray t vs) = (\<Union>v \<in> set vs. reach d h v)"
| "reach (Suc d) h (VStruct t vs) = (\<Union>v \<in> set vs. reach d h v)"

text \<open>A value that holds no address: no pointer, slice or map that is not nil.\<close>

fun ref_free :: "val \<Rightarrow> bool" where
  "ref_free (VInterface t x) = (case x of None \<Rightarrow> True | Some w \<Rightarrow> ref_free w)"
| "ref_free (VMap t m) = (m = None)"
| "ref_free (VPtr t p) = (p = None)"
| "ref_free (VSlice t s) = (s = None)"
| "ref_free (VArray t vs) = (\<forall>v \<in> set vs. ref_free v)"
| "ref_free (VStruct t vs) = (\<forall>v \<in> set vs. ref_free v)"
| "ref_free v = True"

text \<open>
  The inputs of the deep-copy property: in the store \<open>h\<close>, followed to depth
  \<open>d\<close> at most (so the value is acyclic), the value is well typed, every address
  is that of a cell of the right form, no value has kind \<^verbatim>\<open>uintptr\<close> or
  \<^verbatim>\<open>unsafe.Pointer\<close>, every struct field is exported (so it is not a blank
  field, which is written out since the name and the exportedness of a field
  are separate here) and has no \<^verbatim>\<open>ccopy\<close> tag (so no struct is a \<^verbatim>\<open>time.Time\<close>),
  no pointer has a defined pointer type, and the keys of a map are distinct
  (under Go's \<^verbatim>\<open>==\<close>) and hold no address.
\<close>

fun plain :: "nat \<Rightarrow> heap \<Rightarrow> val \<Rightarrow> bool" where
  "plain 0 h v = False"
| "plain (Suc d) h (VBasic t s) =
     (kind_ok (VBasic t s) \<and> kind_of t \<noteq> KBasic BUintptr \<and> kind_of t \<noteq> KBasic BUnsafePointer)"
| "plain (Suc d) h (VChan t c) = kind_ok (VChan t c)"
| "plain (Suc d) h (VFunc t f) = kind_ok (VFunc t f)"
| "plain (Suc d) h (VInterface t x) =
     (kind_ok (VInterface t x) \<and>
      (case x of None \<Rightarrow> True | Some w \<Rightarrow> Kind w \<noteq> KInterface \<and> plain d h w))"
| "plain (Suc d) h (VPtr t p) =
     (kind_ok (VPtr t p) \<and> \<not> named t \<and>
      (case p of
         None \<Rightarrow> True
       | Some a \<Rightarrow>
           (case lookup h a of
              Some (CVal w) \<Rightarrow> type_of w = Elem_ty t \<and> plain d h w
            | _ \<Rightarrow> False)))"
| "plain (Suc d) h (VSlice t sl) =
     (kind_ok (VSlice t sl) \<and>
      (case sl of
         None \<Rightarrow> True
       | Some s \<Rightarrow>
           (case lookup h (sbase s) of
              Some (CArr xs) \<Rightarrow>
                soff s + slen s \<le> length xs \<and>
                (\<forall>x \<in> set (take (slen s) (drop (soff s) xs)). type_of x = Elem_ty t \<and> plain d h x)
            | _ \<Rightarrow> False)))"
| "plain (Suc d) h (VMap t m) =
     (kind_ok (VMap t m) \<and>
      (case m of
         None \<Rightarrow> True
       | Some a \<Rightarrow>
           (case lookup h a of
              Some (CMap es) \<Rightarrow>
                distinct (map (\<lambda>e. norm_zero (fst e)) es) \<and>
                (\<forall>(k, x) \<in> set es.
                    type_of k = Key_ty t \<and> type_of x = Elem_ty t \<and> ref_free k
                    \<and> plain d h k \<and> plain d h x)
            | _ \<Rightarrow> False)))"
| "plain (Suc d) h (VArray t vs) =
     (kind_ok (VArray t vs) \<and> length vs = Len_ty t
      \<and> (\<forall>v \<in> set vs. type_of v = Elem_ty t \<and> plain d h v))"
| "plain (Suc d) h (VStruct t vs) =
     (kind_of t = KStruct \<and> \<not> is_time t
      \<and> list_all2 (\<lambda>f v. exported f \<and> fname f \<noteq> ''_'' \<and> ftag f = []
                          \<and> type_of v = ftype f \<and> plain d h v)
           (fields_of t) vs)"

text \<open>
  What the copy of a plain value \<open>v\<close> in the store \<open>h\<close> gives: a store \<open>h'\<close>
  that keeps the cells of \<open>h\<close> as they are, and a value \<open>v'\<close> of the same type,
  plain in \<open>h'\<close>, with the same deep value, reaching only cells that \<open>h\<close> did
  not have; a value that holds no address is returned as it is up to Go's
  \<^verbatim>\<open>==\<close>, in the same store.
  A recursive call is good at depth \<open>d\<close> when it copies every value that is
  plain to that depth in this way.
\<close>

definition copied :: "nat \<Rightarrow> heap \<Rightarrow> val \<Rightarrow> heap \<Rightarrow> val \<Rightarrow> bool" where
  "copied d h v h' v' \<longleftrightarrow>
     prefix h h' \<and> type_of v' = type_of v \<and> plain d h' v'
     \<and> readback d h' v' = readback d h v
     \<and> reach d h' v' \<subseteq> {length h ..< length h'}
     \<and> (ref_free v \<longrightarrow> ref_free v' \<and> norm_zero v' = norm_zero v \<and> h' = h)"

definition good :: "recur \<Rightarrow> nat \<Rightarrow> bool" where
  "good rec d \<longleftrightarrow>
     (\<forall>h v. plain d h v \<longrightarrow> (\<exists>h' v'. rec h (Some v) = Ok h' v' \<and> copied d h v h' v'))"

section \<open>Basic facts about the dispatcher\<close>

lemma Kind_simps [simp]:
  "Kind (VBasic t s) = kind_of t" "Kind (VArray t vs) = kind_of t" "Kind (VChan t ch) = kind_of t"
  "Kind (VFunc t f) = kind_of t" "Kind (VInterface t x) = kind_of t" "Kind (VMap t m) = kind_of t"
  "Kind (VPtr t p) = kind_of t" "Kind (VSlice t sl) = kind_of t" "Kind (VStruct t vs) = kind_of t"
  by (simp_all add: Kind_def)

lemma passthrough_kinds_iff:
  "k \<in> set passthrough_kinds \<longleftrightarrow>
     k = KFunc \<or> k = KChan \<or> (\<exists>b. k = KBasic b \<and> b \<noteq> BUintptr \<and> b \<noteq> BUnsafePointer)"
proof (cases k)
  case (KBasic b)
  then show ?thesis by (cases b) (simp_all add: passthrough_kinds_def)
qed (simp_all add: passthrough_kinds_def)

lemma is_time_named:
  "is_time t \<Longrightarrow> \<exists>u. t = TNamed ''time'' ''Time'' u"
  by (cases t) (simp_all add: is_time_def)

lemma not_time_simps [simp]:
  "\<not> is_time (TBasic b)" "\<not> is_time (TArray k t)" "\<not> is_time (TChan t)" "\<not> is_time (TFunc as rs)"
  "\<not> is_time TInterface" "\<not> is_time (TMap t1 t2)" "\<not> is_time (TPtr t)" "\<not> is_time (TSlice t)"
  "\<not> is_time (TStruct fs)"
  by (simp_all add: is_time_def)

lemma copy_dispatch:
  assumes "\<not> is_time (type_of v)"
  shows "Kind v = KStruct \<Longrightarrow> copy c (Suc n) h (Some v) = copyStruct (copy c n) c h v"
    and "Kind v = KPtr \<Longrightarrow> copy c (Suc n) h (Some v) = copyPointer (copy c n) h v"
    and "Kind v = KSlice \<Longrightarrow> copy c (Suc n) h (Some v) = copySlice (copy c n) h v"
    and "Kind v = KMap \<Longrightarrow> copy c (Suc n) h (Some v) = copyMap (copy c n) h v"
    and "Kind v = KInterface \<Longrightarrow> copy c (Suc n) h (Some v) = copyInterface (copy c n) h v"
    and "Kind v = KArray \<Longrightarrow> copy c (Suc n) h (Some v) = copyArray (copy c n) h v"
  using assms by simp_all

lemma copy_time: "is_time (type_of v) \<Longrightarrow> copy c (Suc n) h (Some v) = Ok h v"
  by (simp add: copyTime_def)

lemma copy_passthrough:
  "Kind v \<in> set passthrough_kinds \<Longrightarrow> copy c (Suc n) h (Some v) = Ok h v"
  by (auto simp: copyTime_def passthrough_kinds_def)

lemma copy_unsupported:
  assumes "\<not> is_time (type_of v)"
    and "Kind v = KBasic BUintptr \<or> Kind v = KBasic BUnsafePointer"
  shows "copy c (Suc n) h (Some v) = Panic (''unsupported type: '' @ kind_name (Kind v))"
  using assms by (auto simp: passthrough_kinds_iff)

declare copy.simps(3) [simp del]

lemma type_of_retype [simp]: "type_of (retype t v) = t"
  by (cases v) simp_all

lemma retype_same [simp]: "retype (type_of v) v = v"
  by (cases v) simp_all

lemma type_of_Zero [simp]: "type_of (Zero t) = t"
  by (cases t) simp_all

lemma Zero_nilable:
  "kind_of t = KPtr \<Longrightarrow> Zero t = VPtr t None"
  "kind_of t = KSlice \<Longrightarrow> Zero t = VSlice t None"
  "kind_of t = KMap \<Longrightarrow> Zero t = VMap t None"
  "kind_of t = KInterface \<Longrightarrow> Zero t = VInterface t None"
  "kind_of t = KChan \<Longrightarrow> Zero t = VChan t None"
  "kind_of t = KFunc \<Longrightarrow> Zero t = VFunc t None"
  by (induction t rule: underlying.induct; simp)+

lemma IsNil_IsZero: "IsNil v \<Longrightarrow> IsZero v"
  by (cases v) simp_all

lemma IsNil_Zero: "kind_ok v \<Longrightarrow> IsNil v \<Longrightarrow> Zero (type_of v) = v"
  by (cases v) (simp_all add: Zero_nilable)

lemma assignTo_same [simp]: "assignTo v (type_of v) = Some v"
  by (simp add: assignTo_def directlyAssignable_def)

lemma Interface_not_interface: "kind_ok v \<Longrightarrow> Kind v \<noteq> KInterface \<Longrightarrow> Interface v = Some v"
  by (cases v) simp_all

lemma Copy_Ok: "copy c n h obj = Ok h' v \<Longrightarrow> Copy c n h obj = Returned h' (Interface v) None"
  by (simp add: Copy_def ValueOf_def)

lemma copyFields_untagged:
  assumes "exported fld" and "ftag fld = []" and "rec h (Some v) = Ok h1 v'"
    and "IsZero v' \<Longrightarrow> Zero (ftype fld) = x"
    and "\<not> IsZero v' \<Longrightarrow> assignTo v' (ftype fld) = Some x"
  shows "copyFields rec c h (fld # flds) (v # vs) =
           (case copyFields rec c h1 flds vs of Ok h' ocs \<Rightarrow> Ok h' (x # ocs) | r \<Rightarrow> r)"
  using assms by (cases "IsZero v'") (auto simp: copyField_def split: result.splits)

lemma copyFields_same:
  assumes "exported fld" and "ftag fld = []" and "rec h (Some v) = Ok h1 v"
    and "ftype fld = type_of v" and "IsZero v \<Longrightarrow> Zero (type_of v) = v"
  shows "copyFields rec c h (fld # flds) (v # vs) =
           (case copyFields rec c h1 flds vs of Ok h' ocs \<Rightarrow> Ok h' (v # ocs) | r \<Rightarrow> r)"
proof (rule copyFields_untagged [where rec = rec and v' = v, OF assms(1,2,3)])
  show "IsZero v \<Longrightarrow> Zero (ftype fld) = v" using assms(4,5) by simp
  show "assignTo v (ftype fld) = Some v" unfolding assms(4) by (rule assignTo_same)
qed

lemma copy_nil: "kind_ok v \<Longrightarrow> IsNil v \<Longrightarrow> copy c (Suc n) h (Some v) = Ok h v"
  by (cases v) (simp_all add: copy_dispatch copy_passthrough passthrough_kinds_iff)

section \<open>Zero values and the loop over the fields of a struct\<close>

lemma Zero_basic: "kind_of t = KBasic b \<Longrightarrow> Zero t = VBasic t (zero_scalar b)"
  by (induction t rule: underlying.induct) simp_all

lemma Zero_array: "kind_of t = KArray \<Longrightarrow> Zero t = VArray t (replicate (Len_ty t) (Zero (Elem_ty t)))"
  by (induction t rule: underlying.induct) simp_all

lemma Zero_fields_map: "Zero_fields fs = map (\<lambda>f. Zero (ftype f)) fs"
proof (induction fs)
  case (Cons f fs)
  then show ?case by (cases f) simp
qed simp

lemma Zero_struct: "kind_of t = KStruct \<Longrightarrow> Zero t = VStruct t (map (\<lambda>f. Zero (ftype f)) (fields_of t))"
  by (induction t rule: underlying.induct) (simp_all add: Zero_fields_map)

lemma scalar_zero: "scalar_ok b s \<Longrightarrow> IsZero_scalar s \<Longrightarrow> norm_scalar s = zero_scalar b"
  by (cases s; cases b) (auto simp: flt.expand)

lemma norm_zero_scalar: "norm_scalar (zero_scalar b) = zero_scalar b"
  by (cases b) simp_all

lemma wt_kind_ok: "wt v \<Longrightarrow> kind_ok v"
  by (cases v) simp_all

lemma all_zero_fields:
  "list_all2 (\<lambda>f v. type_of v = ftype f
        \<and> (IsZero v \<longrightarrow> norm_zero v = norm_zero (Zero (type_of v)))) fs vs
     \<Longrightarrow> IsZero_fields fs vs
     \<Longrightarrow> norm_fields fs vs = norm_fields fs (map (\<lambda>f. Zero (ftype f)) fs)"
  by (induction rule: list_all2_induct) auto

text \<open>
  A well-typed value that \<^verbatim>\<open>IsZero\<close> accepts is the zero value of its type up to
  the sign of a float zero and the content of blank fields.
\<close>

lemma wt_IsZero: "wt v \<Longrightarrow> IsZero v \<Longrightarrow> norm_zero v = norm_zero (Zero (type_of v))"
proof (induction v)
  case (VBasic t s)
  then show ?case
    by (auto simp: Zero_basic scalar_zero norm_zero_scalar split: kind.splits)
next
  case (VArray t vs)
  then have "\<forall>v \<in> set vs. norm_zero v = norm_zero (Zero (Elem_ty t))"
    by (auto simp: list_all_iff)
  then have "map norm_zero vs = replicate (length vs) (norm_zero (Zero (Elem_ty t)))"
    by (simp add: map_replicate_const [symmetric] cong: map_cong)
  with VArray.prems show ?case by (simp add: Zero_array)
next
  case (VStruct t vs)
  from VStruct.prems have l: "list_all2 (\<lambda>f v. type_of v = ftype f \<and> wt v) (fields_of t) vs"
    and z: "IsZero_fields (fields_of t) vs"
    by simp_all
  have "list_all2 (\<lambda>f v. type_of v = ftype f
        \<and> (IsZero v \<longrightarrow> norm_zero v = norm_zero (Zero (type_of v)))) (fields_of t) vs"
    using l
  proof (rule list.rel_mono_strong)
    fix f v assume "f \<in> set (fields_of t)" "v \<in> set vs" "type_of v = ftype f \<and> wt v"
    then show "type_of v = ftype f
        \<and> (IsZero v \<longrightarrow> norm_zero v = norm_zero (Zero (type_of v)))"
      using VStruct.IH by blast
  qed
  then have "norm_fields (fields_of t) vs
      = norm_fields (fields_of t) (map (\<lambda>f. Zero (ftype f)) (fields_of t))"
    using z by (rule all_zero_fields)
  with VStruct.prems show ?case by (simp add: Zero_struct)
qed (simp_all add: Zero_nilable)

lemma copyFields_length:
  "copyFields rec c h fs vs = Ok h' ocs \<Longrightarrow> length ocs = length fs \<and> length fs \<le> length vs"
proof (induction fs arbitrary: h vs ocs)
  case (Cons f fs)
  then show ?case
    by (cases vs) (auto split: result.splits)
qed simp

lemma copyFields_append:
  "length fs1 = length vs1 \<Longrightarrow>
   copyFields rec c h (fs1 @ fs2) (vs1 @ vs2) =
     (case copyFields rec c h fs1 vs1 of
        Ok h1 ocs1 \<Rightarrow>
          (case copyFields rec c h1 fs2 vs2 of
             Ok h2 ocs2 \<Rightarrow> Ok h2 (ocs1 @ ocs2)
           | r \<Rightarrow> r)
      | r \<Rightarrow> r)"
proof (induction fs1 vs1 arbitrary: h rule: list_induct2)
  case Nil
  then show ?case by (simp split: result.splits)
next
  case (Cons f fs1 v vs1)
  show ?case
    by (simp add: Cons.IH split: result.splits)
qed

text \<open>Splitting the loop at field i.\<close>

lemma copyFields_split:
  assumes "i < length fs" and "i < length vs"
  shows "copyFields rec c h fs vs =
     (case copyFields rec c h (take i fs) (take i vs) of
        Ok h1 ocs1 \<Rightarrow>
          (case copyField rec c h1 (fs ! i) (vs ! i) of
             Ok h2 x \<Rightarrow>
               (case copyFields rec c h2 (drop (Suc i) fs) (drop (Suc i) vs) of
                  Ok h3 ocs2 \<Rightarrow> Ok h3 (ocs1 @ x # ocs2)
                | Diverge \<Rightarrow> Diverge | Panic m \<Rightarrow> Panic m | Error h3 e \<Rightarrow> Error h3 e)
           | Diverge \<Rightarrow> Diverge | Panic m \<Rightarrow> Panic m | Error h2 e \<Rightarrow> Error h2 e)
      | r \<Rightarrow> r)"
proof -
  have fs: "fs = take i fs @ (fs ! i # drop (Suc i) fs)"
    using assms(1) by (simp add: Cons_nth_drop_Suc)
  have vs: "vs = take i vs @ (vs ! i # drop (Suc i) vs)"
    using assms(2) by (simp add: Cons_nth_drop_Suc)
  have len: "length (take i fs) = length (take i vs)"
    using assms by simp
  have "copyFields rec c h fs vs =
      copyFields rec c h (take i fs @ (fs ! i # drop (Suc i) fs)) (take i vs @ (vs ! i # drop (Suc i) vs))"
    using fs vs by simp
  also have "\<dots> = (case copyFields rec c h (take i fs) (take i vs) of
        Ok h1 ocs1 \<Rightarrow>
          (case copyFields rec c h1 (fs ! i # drop (Suc i) fs) (vs ! i # drop (Suc i) vs) of
             Ok h2 ocs2 \<Rightarrow> Ok h2 (ocs1 @ ocs2)
           | r \<Rightarrow> r)
      | r \<Rightarrow> r)"
    by (rule copyFields_append [OF len])
  finally show ?thesis
    by (simp split: result.splits)
qed

lemma copy_struct_Ok:
  assumes "copy c (Suc n) h (Some (VStruct t vs)) = Ok h' oc" and "kind_of t = KStruct" and "\<not> is_time t"
  shows "\<exists>ocs. oc = VStruct t ocs \<and> copyFields (copy c n) c h (fields_of t) vs = Ok h' ocs"
  using assms by (auto simp: copy_dispatch split: result.splits)

lemma copy_struct_eq:
  assumes "kind_of t = KStruct" and "\<not> is_time t"
  shows "copy c (Suc n) h (Some (VStruct t vs)) =
     (case copyFields (copy c n) c h (fields_of t) vs of
        Diverge \<Rightarrow> Diverge | Panic m \<Rightarrow> Panic m | Error h' e \<Rightarrow> Error h' e
      | Ok h' ocs \<Rightarrow> Ok h' (VStruct t ocs))"
  using assms by (simp add: copy_dispatch)

lemma copyField_unexported:
  "\<not> exported f \<Longrightarrow> copyField rec c h f v = Ok h (Zero (ftype f))"
  by (simp add: copyField_def)

lemma copyFields_unexported_zero:
  "copyFields rec c h fs vs = Ok h' ocs \<Longrightarrow> i < length fs \<Longrightarrow> \<not> exported (fs ! i)
     \<Longrightarrow> ocs ! i = Zero (ftype (fs ! i))"
proof (induction fs arbitrary: h vs ocs i)
  case (Cons f fs)
  then show ?case
    by (cases vs; cases i) (auto simp: copyField_unexported split: result.splits)
qed simp

lemma copyFields_ignores_unexported:
  "length vs = length vs' \<Longrightarrow> (\<forall>i<length fs. i < length vs \<longrightarrow> exported (fs ! i) \<longrightarrow> vs ! i = vs' ! i)
     \<Longrightarrow> copyFields rec c h fs vs = copyFields rec c h fs vs'"
proof (induction fs arbitrary: h vs vs')
  case (Cons f fs)
  show ?case
  proof (cases vs)
    case Nil
    with Cons.prems show ?thesis by simp
  next
    case (Cons v ws)
    then obtain v' ws' where vs': "vs' = v' # ws'" using Cons.prems(1) by (cases vs') auto
    have hd: "copyField rec c h f v = copyField rec c h f v'"
    proof (cases "exported f")
      case True
      then have "v = v'" using Cons.prems(2) Cons vs' by auto
      then show ?thesis by simp
    next
      case False
      then show ?thesis by (simp add: copyField_unexported)
    qed
    have tl: "\<And>h1. copyFields rec c h1 fs ws = copyFields rec c h1 fs ws'"
    proof (rule Cons.IH)
      show "length ws = length ws'" using Cons.prems(1) Cons vs' by simp
      show "\<forall>i<length fs. i < length ws \<longrightarrow> exported (fs ! i) \<longrightarrow> ws ! i = ws' ! i"
        using Cons.prems(2) Cons vs' by fastforce
    qed
    show ?thesis by (simp add: Cons vs' hd tl cong: result.case_cong)
  qed
qed simp

lemma copyField_tagged_Ok:
  assumes "copyField rec c h f v = Ok h2 x" and "exported f" and "ftag f \<noteq> []" and "c (ftag f) = Some fn"
  shows "\<exists>r rs. Call fn h v = CRet h2 (r # rs)
     \<and> (IsZero r \<longrightarrow> x = Zero (ftype f))
     \<and> (\<not> IsZero r \<longrightarrow> assignTo r (ftype f) = Some x)"
  using assms
  by (auto simp: copyField_def split: callres.splits list.splits if_splits option.splits)

section \<open>The copy leaves existing cells as they are\<close>

lemma lookup_prefix: "prefix h h' \<Longrightarrow> lookup h a = Some x \<Longrightarrow> lookup h' a = Some x"
  by (auto simp: lookup_def prefix_def nth_append split: if_splits)

lemma prefix_update: "prefix h h1 \<Longrightarrow> length h \<le> a \<Longrightarrow> prefix h (h1[a := x])"
  by (auto simp: prefix_def list_update_append)

lemma prefix_snoc: "prefix h h1 \<Longrightarrow> prefix h (h1 @ [x])"
  by (auto simp: prefix_def)

lemma lookup_Some_less: "lookup h a = Some x \<Longrightarrow> a < length h"
  by (simp add: lookup_def split: if_splits)

lemma frameD: "frame rec \<Longrightarrow> rec h ov = Ok h' v \<Longrightarrow> prefix h h'"
  by (auto simp: frame_def)

lemma Call_prefix:
  "allocates_only c \<Longrightarrow> c tg = Some fn \<Longrightarrow> Call fn h v = CRet h' rs \<Longrightarrow> prefix h h'"
proof (cases fn)
  case (RFunc ps body)
  assume a: "allocates_only c" "c tg = Some fn" "Call fn h v = CRet h' rs"
  then obtain args where "body h args = CRet h' rs"
    using RFunc by (auto split: list.splits option.splits)
  with a(1,2) RFunc show ?thesis unfolding allocates_only_def by blast
qed simp

lemma copyField_prefix:
  assumes "frame rec" and "allocates_only c" and "copyField rec c h f v = Ok h' x"
  shows "prefix h h'"
  using assms
  by (auto simp: copyField_def split: if_splits result.splits option.splits callres.splits list.splits
      dest: frameD Call_prefix)

lemma copyFields_prefix:
  assumes "frame rec" and "allocates_only c"
  shows "copyFields rec c h fs vs = Ok h' ocs \<Longrightarrow> prefix h h'"
proof (induction fs arbitrary: h vs ocs)
  case (Cons f fs)
  then show ?case
    by (cases vs) (auto split: result.splits dest!: copyField_prefix [OF assms] intro: prefix_order.trans)
qed simp

lemma copyStruct_prefix:
  assumes "frame rec" and "allocates_only c" and "copyStruct rec c h v = Ok h' v'"
  shows "prefix h h'"
  using assms(3) by (cases v) (auto split: result.splits dest: copyFields_prefix [OF assms(1,2)])

lemma copyPointer_prefix:
  assumes "frame rec" and "copyPointer rec h v = Ok h' v'"
  shows "prefix h h'"
proof (cases v)
  case (VPtr t p)
  show ?thesis
  proof (cases p)
    case None
    with VPtr assms show ?thesis by simp
  next
    case (Some a)
    with VPtr assms(2) obtain w h1 x where
      r: "rec (h @ [CVal (Zero (Elem_ty t))]) (Some w) = Ok h1 x"
      and h': "h' = h1 \<or> (\<exists>y. h' = h1[length h := CVal y])"
      by (auto simp: alloc_def split: option.splits cell.splits result.splits if_splits)
    have "prefix (h @ [CVal (Zero (Elem_ty t))]) h1" using frameD [OF assms(1) r] .
    then have p: "prefix h h1" by (auto simp: prefix_def)
    from h' show ?thesis using p by (auto intro: prefix_update)
  qed
qed (use assms in simp_all)

lemma copyInterface_prefix:
  assumes "frame rec" and "copyInterface rec h v = Ok h' v'"
  shows "prefix h h'"
proof (cases v)
  case (VInterface t x)
  with assms show ?thesis
    by (cases x) (auto split: result.splits option.splits dest: frameD)
qed (use assms in simp_all)

lemma Append_prefix:
  "Append h t oc v = Some (h', oc') \<Longrightarrow> prefix h0 h \<Longrightarrow> length h0 \<le> sbase oc
     \<Longrightarrow> prefix h0 h' \<and> length h0 \<le> sbase oc'"
  by (auto simp: Append_def alloc_def Let_def split: option.splits cell.splits if_splits
      intro: prefix_update prefix_snoc dest: prefix_length_le)

lemma copySliceLoop_prefix:
  assumes "frame rec"
  shows "copySliceLoop rec h t s oc is = Ok h' oc' \<Longrightarrow> prefix h0 h \<Longrightarrow> length h0 \<le> sbase oc
     \<Longrightarrow> prefix h0 h'"
proof (induction "is" arbitrary: h oc)
  case (Cons i "is")
  from Cons.prems(1) obtain x h1 v h2 oc2 where
    r: "rec h (Some x) = Ok h1 v" and a: "Append h1 t oc v = Some (h2, oc2)"
    and l: "copySliceLoop rec h2 t s oc2 is = Ok h' oc'"
    by (auto split: option.splits result.splits)
  have "prefix h0 h1" using frameD [OF assms r] Cons.prems(2) by (rule prefix_order.trans [rotated])
  then have "prefix h0 h2 \<and> length h0 \<le> sbase oc2"
    using Append_prefix [OF a] Cons.prems(3) by simp
  then show ?case using Cons.IH [OF l] by simp
qed simp

lemma copySlice_prefix:
  assumes "frame rec" and "copySlice rec h v = Ok h' v'"
  shows "prefix h h'"
proof (cases v)
  case (VSlice t sl)
  show ?thesis
  proof (cases sl)
    case None
    with VSlice assms show ?thesis by simp
  next
    case (Some s)
    with VSlice assms(2) obtain oc' where
      l: "copySliceLoop rec (h @ [CArr (replicate (slen s) (Zero (Elem_ty t)))]) t s
            (SliceHdr (length h) 0 0 (slen s)) [0..<slen s] = Ok h' oc'"
      by (auto simp: MakeSlice_def alloc_def split: result.splits)
    show ?thesis
      by (rule copySliceLoop_prefix [OF assms(1) l]) (simp_all add: prefix_def)
  qed
qed (use assms in simp_all)

lemma copyArrayLoop_prefix:
  assumes "frame rec"
  shows "copyArrayLoop rec h t vs ocs sl is = Ok h' ocs' \<Longrightarrow> prefix h h'"
proof (induction "is" arbitrary: h ocs sl)
  case (Cons i "is")
  then show ?case
    by (auto split: if_splits result.splits option.splits dest!: frameD [OF assms]
        intro: prefix_order.trans)
qed simp

lemma copyArray_prefix:
  assumes "frame rec" and "copyArray rec h v = Ok h' v'"
  shows "prefix h h'"
  using assms(2) by (cases v) (auto split: result.splits dest: copyArrayLoop_prefix [OF assms(1)])

lemma SetMapIndex_prefix:
  "SetMapIndex h t a k x = Some h' \<Longrightarrow> prefix h0 h \<Longrightarrow> length h0 \<le> a \<Longrightarrow> prefix h0 h'"
  by (auto simp: SetMapIndex_def split: option.splits cell.splits intro: prefix_update)

lemma copyMapLoop_prefix:
  assumes "frame rec"
  shows "copyMapLoop rec h t a es = Ok h' u \<Longrightarrow> prefix h0 h \<Longrightarrow> length h0 \<le> a \<Longrightarrow> prefix h0 h'"
proof (induction es arbitrary: h)
  case (Cons e es)
  obtain k x where e: "e = (k, x)" by (cases e)
  from Cons.prems(1) e obtain h1 k' h2 x' h3 where
    r1: "rec h (Some k) = Ok h1 k'" and r2: "rec h1 (Some x) = Ok h2 x'"
    and s: "SetMapIndex h2 t a k' x' = Some h3" and l: "copyMapLoop rec h3 t a es = Ok h' u"
    by (auto split: option.splits result.splits)
  have "prefix h0 h2"
    using frameD [OF assms r1] frameD [OF assms r2] Cons.prems(2) by (meson prefix_order.trans)
  then have "prefix h0 h3" using SetMapIndex_prefix [OF s] Cons.prems(3) by simp
  then show ?case using Cons.IH [OF l] Cons.prems(3) by simp
qed simp

lemma copyMap_prefix:
  assumes "frame rec" and "copyMap rec h v = Ok h' v'"
  shows "prefix h h'"
proof (cases v)
  case (VMap t m)
  show ?thesis
  proof (cases m)
    case None
    with VMap assms show ?thesis by simp
  next
    case (Some a)
    with VMap assms(2) obtain es u where
      l: "copyMapLoop rec (h @ [CMap []]) t (length h) es = Ok h' u"
      by (auto simp: alloc_def split: option.splits cell.splits result.splits)
    show ?thesis
      by (rule copyMapLoop_prefix [OF assms(1) l]) (simp_all add: prefix_def)
  qed
qed (use assms in simp_all)

lemma copy_frame:
  assumes "allocates_only c"
  shows "frame (copy c n)"
proof (induction n)
  case 0
  show ?case by (simp add: frame_def)
next
  case (Suc n)
  show ?case
    unfolding frame_def
  proof (intro allI impI)
    fix h ov h' v
    assume a: "copy c (Suc n) h ov = Ok h' v"
    then obtain w where ov: "ov = Some w" by (cases ov) auto
    show "prefix h h'"
      using a unfolding ov copy.simps
      by (auto simp: copyTime_def split: if_splits
          dest: copyStruct_prefix [OF Suc assms] copyPointer_prefix [OF Suc] copySlice_prefix [OF Suc]
            copyMap_prefix [OF Suc] copyInterface_prefix [OF Suc] copyArray_prefix [OF Suc])
  qed
qed

section \<open>The loops of the slice and array copies\<close>

lemma Append_below_cap:
  assumes "Append h t (SliceHdr a 0 l cp) v = Some (h', oc')" and "l < cp"
    and "lookup h a = Some (CArr ys)"
  shows "\<exists>x. assignTo v (Elem_ty t) = Some x \<and> h' = h[a := CArr (ys[l := x])]
     \<and> oc' = SliceHdr a 0 (Suc l) cp"
  using assms by (auto simp: Append_def split: option.splits)

lemma lookup_update_same: "a < length h \<Longrightarrow> lookup (h[a := x]) a = Some x"
  by (simp add: lookup_def)

lemma same_except_refl: "same_except a h h"
  by (simp add: same_except_def)

lemma same_except_trans: "same_except a h h1 \<Longrightarrow> same_except a h1 h2 \<Longrightarrow> same_except a h h2"
  by (auto simp: same_except_def)

lemma prefix_same_except: "prefix h h' \<Longrightarrow> same_except a h h'"
  by (auto simp: same_except_def lookup_def prefix_def nth_append)

lemma update_same_except: "same_except a h (h[a := x])"
  by (simp add: same_except_def lookup_def)

lemma same_except_prefix:
  assumes "same_except a h1 h2" and "prefix h h1" and "length h \<le> a"
  shows "prefix h h2"
proof -
  have len: "length h \<le> length h1" "length h1 \<le> length h2"
    using assms by (auto simp: same_except_def prefix_def)
  have "take (length h) h2 = h"
  proof (rule nth_equalityI)
    show "length (take (length h) h2) = length h" using len by simp
  next
    fix i assume "i < length (take (length h) h2)"
    then have i: "i < length h" by simp
    then have "lookup h2 i = lookup h1 i"
      using assms(1,3) len by (auto simp: same_except_def)
    moreover have "lookup h1 i = Some (h ! i)"
      using lookup_prefix [OF assms(2), of i "h ! i"] i by (simp add: lookup_def)
    ultimately show "take (length h) h2 ! i = h ! i"
      using i len by (simp add: lookup_def split: if_splits)
  qed
  then show ?thesis by (metis take_is_prefix)
qed

lemma Index_slice_prefix:
  "prefix h h' \<Longrightarrow> sbase s < length h \<Longrightarrow> Index_slice h' s i = Index_slice h s i"
  by (auto simp: Index_slice_def lookup_def prefix_def nth_append)

lemma copySliceLoop_inv:
  assumes fr: "frame rec"
  shows "copySliceLoop rec h t s (SliceHdr a 0 l cp) is = Ok h' oc'
     \<Longrightarrow> lookup h a = Some (CArr ys) \<Longrightarrow> length ys = cp \<Longrightarrow> l + length is \<le> cp
     \<Longrightarrow> oc' = SliceHdr a 0 (l + length is) cp \<and> same_except a h h'
       \<and> (\<exists>ys'. lookup h' a = Some (CArr ys') \<and> length ys' = cp \<and> take l ys' = take l ys
            \<and> (\<forall>j<length is. \<exists>hj hj' x y.
                  same_except a h hj
                  \<and> Index_slice hj s (is ! j) = Some x \<and> rec hj (Some x) = Ok hj' y
                  \<and> assignTo y (Elem_ty t) = Some (ys' ! (l + j))
                  \<and> same_except a hj' h'))"
proof (induction "is" arbitrary: h l ys)
  case Nil
  then show ?case by (simp add: same_except_refl)
next
  case (Cons i "is")
  from Cons.prems(1) obtain x h1 v h2 oc2 where
    ix: "Index_slice h s i = Some x" and r: "rec h (Some x) = Ok h1 v"
    and ap: "Append h1 t (SliceHdr a 0 l cp) v = Some (h2, oc2)"
    and lp: "copySliceLoop rec h2 t s oc2 is = Ok h' oc'"
    by (auto split: option.splits result.splits)
  have l: "l < cp" using Cons.prems(4) by simp
  have lk1: "lookup h1 a = Some (CArr ys)"
    using lookup_prefix [OF frameD [OF fr r] Cons.prems(2)] .
  obtain z where z: "assignTo v (Elem_ty t) = Some z"
    and h2: "h2 = h1[a := CArr (ys[l := z])]" and oc2: "oc2 = SliceHdr a 0 (Suc l) cp"
    using Append_below_cap [OF ap l lk1] by blast
  have lk2: "lookup h2 a = Some (CArr (ys[l := z]))"
    unfolding h2 using lookup_Some_less [OF lk1] by (rule lookup_update_same)
  have s01: "same_except a h h1"
    using frameD [OF fr r] by (rule prefix_same_except)
  have s12: "same_except a h1 h2"
    unfolding h2 by (rule update_same_except)
  have s02: "same_except a h h2"
    using s01 s12 by (rule same_except_trans)
  have "oc' = SliceHdr a 0 (Suc l + length is) cp \<and> same_except a h2 h'
       \<and> (\<exists>ys'. lookup h' a = Some (CArr ys') \<and> length ys' = cp
            \<and> take (Suc l) ys' = take (Suc l) (ys[l := z])
            \<and> (\<forall>j<length is. \<exists>hj hj' x y.
                  same_except a h2 hj
                  \<and> Index_slice hj s (is ! j) = Some x \<and> rec hj (Some x) = Ok hj' y
                  \<and> assignTo y (Elem_ty t) = Some (ys' ! (Suc l + j))
                  \<and> same_except a hj' h'))"
    using Cons.prems(3,4) by (intro Cons.IH [OF lp [unfolded oc2] lk2]) simp_all
  then obtain ys' where oc': "oc' = SliceHdr a 0 (Suc l + length is) cp"
    and s2': "same_except a h2 h'"
    and lk': "lookup h' a = Some (CArr ys')" and len: "length ys' = cp"
    and tk: "take (Suc l) ys' = take (Suc l) (ys[l := z])"
    and rest: "\<forall>j<length is. \<exists>hj hj' x y.
                  same_except a h2 hj
                  \<and> Index_slice hj s (is ! j) = Some x \<and> rec hj (Some x) = Ok hj' y
                  \<and> assignTo y (Elem_ty t) = Some (ys' ! (Suc l + j))
                  \<and> same_except a hj' h'"
    by blast
  have s1': "same_except a h1 h'"
    using s12 s2' by (rule same_except_trans)
  have s0': "same_except a h h'"
    using s02 s2' by (rule same_except_trans)
  have at_l: "ys' ! l = z"
  proof -
    have "ys' ! l = take (Suc l) ys' ! l" by simp
    also have "\<dots> = take (Suc l) (ys[l := z]) ! l" using tk by simp
    also have "\<dots> = z" using l Cons.prems(3) by simp
    finally show ?thesis .
  qed
  have tk_l: "take l ys' = take l ys"
  proof -
    have "take l ys' = take l (take (Suc l) ys')" by (simp add: min_def)
    also have "\<dots> = take l (take (Suc l) (ys[l := z]))" using tk by simp
    also have "\<dots> = take l ys" by (simp add: min_def)
    finally show ?thesis .
  qed
  have all: "\<forall>j<length (i # is). \<exists>hj hj' x y.
                  same_except a h hj
                  \<and> Index_slice hj s ((i # is) ! j) = Some x \<and> rec hj (Some x) = Ok hj' y
                  \<and> assignTo y (Elem_ty t) = Some (ys' ! (l + j))
                  \<and> same_except a hj' h'"
  proof (intro allI impI)
    fix j assume j: "j < length (i # is)"
    show "\<exists>hj hj' x y. same_except a h hj
                  \<and> Index_slice hj s ((i # is) ! j) = Some x \<and> rec hj (Some x) = Ok hj' y
                  \<and> assignTo y (Elem_ty t) = Some (ys' ! (l + j))
                  \<and> same_except a hj' h'"
    proof (cases j)
      case 0
      have "same_except a h h \<and> Index_slice h s ((i # is) ! j) = Some x \<and> rec h (Some x) = Ok h1 v
          \<and> assignTo v (Elem_ty t) = Some (ys' ! (l + j)) \<and> same_except a h1 h'"
        using 0 ix r z at_l s1' by (simp add: same_except_refl)
      then show ?thesis by blast
    next
      case (Suc j')
      then have "j' < length is" using j by simp
      with rest obtain hj hj' x y where
        "same_except a h2 hj"
        "Index_slice hj s (is ! j') = Some x" "rec hj (Some x) = Ok hj' y"
        "assignTo y (Elem_ty t) = Some (ys' ! (Suc l + j'))" "same_except a hj' h'" by blast
      then have "same_except a h hj \<and> Index_slice hj s ((i # is) ! j) = Some x
          \<and> rec hj (Some x) = Ok hj' y
          \<and> assignTo y (Elem_ty t) = Some (ys' ! (l + j)) \<and> same_except a hj' h'"
        using Suc same_except_trans [OF s02] by simp
      then show ?thesis by blast
    qed
  qed
  have "oc' = SliceHdr a 0 (l + length (i # is)) cp" using oc' by simp
  then show ?case using s0' lk' len tk_l all by blast
qed

lemma copyArrayLoop_inv:
  assumes fr: "frame rec"
  shows "copyArrayLoop rec h t vs ocs (Some l) is = Ok h' ocs'
     \<Longrightarrow> length ocs = Len_ty t \<Longrightarrow> l + length is \<le> Len_ty t
     \<Longrightarrow> length ocs' = Len_ty t \<and> take l ocs' = take l ocs \<and> prefix h h'
       \<and> (\<forall>j<length is. is ! j < length vs \<and> (\<exists>hj hj' y.
             prefix h hj \<and> rec hj (Some (vs ! (is ! j))) = Ok hj' y
             \<and> assignTo y (Elem_ty t) = Some (ocs' ! (l + j)) \<and> prefix hj' h'))"
proof (induction "is" arbitrary: h l ocs)
  case Nil
  then show ?case by simp
next
  case (Cons i "is")
  have l: "l < Len_ty t" using Cons.prems(3) by simp
  from Cons.prems(1) l obtain h1 v z where
    iv: "i < length vs" and r: "rec h (Some (vs ! i)) = Ok h1 v"
    and z: "assignTo v (Elem_ty t) = Some z"
    and lp: "copyArrayLoop rec h1 t vs (ocs[l := z]) (Some (Suc l)) is = Ok h' ocs'"
    by (auto split: if_splits option.splits result.splits)
  have p01: "prefix h h1" using frameD [OF fr r] .
  have "length ocs' = Len_ty t \<and> take (Suc l) ocs' = take (Suc l) (ocs[l := z]) \<and> prefix h1 h'
       \<and> (\<forall>j<length is. is ! j < length vs \<and> (\<exists>hj hj' y.
             prefix h1 hj \<and> rec hj (Some (vs ! (is ! j))) = Ok hj' y
             \<and> assignTo y (Elem_ty t) = Some (ocs' ! (Suc l + j)) \<and> prefix hj' h'))"
    using Cons.prems(2,3) by (intro Cons.IH [OF lp]) simp_all
  then have len: "length ocs' = Len_ty t"
    and tk: "take (Suc l) ocs' = take (Suc l) (ocs[l := z])"
    and p1': "prefix h1 h'"
    and rest: "\<forall>j<length is. is ! j < length vs \<and> (\<exists>hj hj' y.
             prefix h1 hj \<and> rec hj (Some (vs ! (is ! j))) = Ok hj' y
             \<and> assignTo y (Elem_ty t) = Some (ocs' ! (Suc l + j)) \<and> prefix hj' h')"
    by blast+
  have p0': "prefix h h'" using p01 p1' by (rule prefix_order.trans)
  have at_l: "ocs' ! l = z"
  proof -
    have "ocs' ! l = take (Suc l) ocs' ! l" by simp
    also have "\<dots> = take (Suc l) (ocs[l := z]) ! l" using tk by simp
    also have "\<dots> = z" using l Cons.prems(2) by simp
    finally show ?thesis .
  qed
  have tk_l: "take l ocs' = take l ocs"
  proof -
    have "take l ocs' = take l (take (Suc l) ocs')" by (simp add: min_def)
    also have "\<dots> = take l (take (Suc l) (ocs[l := z]))" using tk by simp
    also have "\<dots> = take l ocs" by (simp add: min_def)
    finally show ?thesis .
  qed
  have all: "\<forall>j<length (i # is). (i # is) ! j < length vs \<and> (\<exists>hj hj' y.
             prefix h hj \<and> rec hj (Some (vs ! ((i # is) ! j))) = Ok hj' y
             \<and> assignTo y (Elem_ty t) = Some (ocs' ! (l + j)) \<and> prefix hj' h')"
  proof (intro allI impI)
    fix j assume j: "j < length (i # is)"
    show "(i # is) ! j < length vs \<and> (\<exists>hj hj' y.
             prefix h hj \<and> rec hj (Some (vs ! ((i # is) ! j))) = Ok hj' y
             \<and> assignTo y (Elem_ty t) = Some (ocs' ! (l + j)) \<and> prefix hj' h')"
    proof (cases j)
      case 0
      have "prefix h h \<and> rec h (Some (vs ! ((i # is) ! j))) = Ok h1 v
             \<and> assignTo v (Elem_ty t) = Some (ocs' ! (l + j)) \<and> prefix h1 h'"
        using 0 r z at_l p1' by simp
      then show ?thesis using 0 iv by auto
    next
      case (Suc j')
      then have j': "j' < length is" using j by simp
      with rest obtain hj hj' y where lt: "is ! j' < length vs"
        and "prefix h1 hj" "rec hj (Some (vs ! (is ! j'))) = Ok hj' y"
        "assignTo y (Elem_ty t) = Some (ocs' ! (Suc l + j'))" "prefix hj' h'" by blast
      then have "prefix h hj \<and> rec hj (Some (vs ! ((i # is) ! j))) = Ok hj' y
             \<and> assignTo y (Elem_ty t) = Some (ocs' ! (l + j)) \<and> prefix hj' h'"
        using Suc prefix_order.trans [OF p01] by simp
      then show ?thesis using Suc lt by auto
    qed
  qed
  show ?case using len tk_l p0' all by blast
qed

section \<open>Deep values depend on the reachable cells only\<close>

lemma those_map_cong:
  "(\<And>x. x \<in> set xs \<Longrightarrow> f x = g x) \<Longrightarrow> those (map f xs) = those (map g xs)"
  by (induction xs) (auto split: option.splits)

lemma frame_reach:
  "(\<forall>a \<in> reach d h v. lookup h' a = lookup h a) \<Longrightarrow> reach d h' v = reach d h v"
proof (induction d h v arbitrary: rule: reach.induct)
  case (8 d h t a)
  then show ?case by (auto split: option.splits cell.splits)
next
  case (10 d h t s)
  then show ?case by (auto split: option.splits cell.splits)
next
  case (12 d h t a)
  then show ?case by (auto split: option.splits cell.splits)
qed auto


lemma frame_readback:
  "(\<forall>a \<in> reach d h v. lookup h' a = lookup h a) \<Longrightarrow> readback d h' v = readback d h v"
proof (induction d h v arbitrary: rule: readback.induct)
  case (8 d h t a)
  then show ?case by (auto split: option.splits cell.splits)
next
  case (10 d h t s)
  then show ?case by (auto split: option.splits cell.splits intro!: arg_cong [where f = "map_option (DSeq t)"] those_map_cong)
next
  case (12 d h t a)
  then show ?case
    by (auto split: option.splits cell.splits
        intro!: arg_cong [where f = "map_option (DDict t)"] those_map_cong)
next
  case (13 d h t vs)
  then show ?case by (auto intro!: arg_cong [where f = "map_option (DArr t)"] those_map_cong)
next
  case (14 d h t vs)
  then show ?case by (auto intro!: arg_cong [where f = "map_option (DRec t)"] those_map_cong)
qed auto

lemma plain_reach:
  "plain d h v \<Longrightarrow> reach d h v \<subseteq> {..<length h}"
proof (induction d h v rule: plain.induct)
  case (5 d h t x)
  then show ?case by (cases x) auto
next
  case (6 d h t p)
  then show ?case by (cases p) (auto split: option.splits cell.splits dest: lookup_Some_less)
next
  case (7 d h t sl)
  then show ?case by (cases sl) (fastforce split: option.splits cell.splits dest: lookup_Some_less)+
next
  case (8 d h t m)
  then show ?case by (cases m) (fastforce split: option.splits cell.splits dest: lookup_Some_less)+
next
  case (9 d h t vs)
  then show ?case by auto
next
  case (10 d h t vs)
  then show ?case by (auto simp: list_all2_conv_all_nth in_set_conv_nth) blast
qed auto

lemma plain_wt: "plain d h v \<Longrightarrow> wt v"
proof (induction d h v rule: plain.induct)
  case (5 d h t x)
  then show ?case by (cases x) auto
next
  case (10 d h t vs)
  then show ?case by (auto elim!: list.rel_mono_strong)
qed auto

lemma plain_kind_ok: "plain d h v \<Longrightarrow> kind_ok v"
  by (rule wt_kind_ok [OF plain_wt])

lemma plain_frame:
  "plain d h v \<Longrightarrow> (\<forall>a \<in> reach d h v. lookup h' a = lookup h a) \<Longrightarrow> plain d h' v"
proof (induction d h v rule: plain.induct)
  case (5 d h t x)
  then show ?case by (cases x) auto
next
  case (6 d h t p)
  then show ?case by (cases p) (auto split: option.splits cell.splits)
next
  case (7 d h t sl)
  then show ?case by (cases sl) (auto split: option.splits cell.splits)
next
  case (8 d h t m)
  then show ?case by (cases m) (fastforce split: option.splits cell.splits)+
next
  case (9 d h t vs)
  then show ?case by auto
next
  case (10 d h t vs)
  then show ?case by (auto elim!: list.rel_mono_strong)
qed auto

section \<open>Invalid top-level value\<close>

text \<open>
  Claim C6. \<^verbatim>\<open>Copy\<close> of the nil interface (an invalid \<^verbatim>\<open>reflect.Value\<close>) returns
  a nil result and the error \<^verbatim>\<open>invalid value\<close>: it returns, it does not panic, and
  the store is untouched.
\<close>

theorem Copy_invalid_value:
  "Copy c (Suc n) h None = Returned h None (Some ''invalid value'')"
  by (simp add: Copy_def ValueOf_def)

section \<open>Raw memory-address kinds\<close>

text \<open>
  Claim C5. When \<^verbatim>\<open>copy\<close> reaches a value of kind \<^verbatim>\<open>uintptr\<close> or
  \<^verbatim>\<open>unsafe.Pointer\<close> it panics with \<^verbatim>\<open>unsupported type: <kind>\<close>, whatever the
  registry, the store and the depth; \<^verbatim>\<open>Copy\<close> then panics too instead of
  returning an error, and so does the copy of a pointer to such a value, of an
  interface holding it inside a struct field, of a struct whose first field it
  is, of a slice or an array whose first element it is, and of a map whose
  first entry has it as value.
\<close>

theorem raw_address_kind_panics:
  assumes nt: "\<not> is_time (type_of v)"
    and k: "Kind v = KBasic BUintptr \<or> Kind v = KBasic BUnsafePointer"
  shows "copy c (Suc n) h (Some v) = Panic (''unsupported type: '' @ kind_name (Kind v))
    \<and> Copy c (Suc n) h (Some v) = Panicked (''unsupported type: '' @ kind_name (Kind v))
    \<and> (lookup h ap = Some (CVal v) \<longrightarrow>
         Copy c (Suc (Suc n)) h (Some (VPtr (TPtr t) (Some ap)))
           = Panicked (''unsupported type: '' @ kind_name (Kind v)))
    \<and> Copy c (Suc (Suc (Suc n))) h
           (Some (VStruct (TStruct [StructField nm TInterface [] True]) [VInterface TInterface (Some v)]))
           = Panicked (''unsupported type: '' @ kind_name (Kind v))
    \<and> (exported fld \<and> ftag fld = [] \<longrightarrow>
         Copy c (Suc (Suc n)) h (Some (VStruct (TStruct (fld # flds)) (v # vs)))
           = Panicked (''unsupported type: '' @ kind_name (Kind v)))
    \<and> (lookup h as = Some (CArr (v # xs)) \<longrightarrow>
         Copy c (Suc (Suc n)) h (Some (VSlice (TSlice t) (Some (SliceHdr as 0 (Suc l) cp))))
           = Panicked (''unsupported type: '' @ kind_name (Kind v)))
    \<and> Copy c (Suc (Suc n)) h (Some (VArray (TArray (Suc l) t) (v # vs)))
           = Panicked (''unsupported type: '' @ kind_name (Kind v))
    \<and> (lookup h am = Some (CMap ((k0, v) # es)) \<and> Kind k0 = KBasic BString \<and> \<not> is_time (type_of k0) \<longrightarrow>
         Copy c (Suc (Suc n)) h (Some (VMap (TMap kt t) (Some am)))
           = Panicked (''unsupported type: '' @ kind_name (Kind v)))"
proof -
  let ?m = "''unsupported type: '' @ kind_name (Kind v)"
  have base: "\<And>n h. copy c (Suc n) h (Some v) = Panic ?m"
    using copy_unsupported [OF nt k] .
  have 1: "Copy c (Suc n) h (Some v) = Panicked ?m"
    by (simp only: Copy_def ValueOf_def base result.case)
  have 2: "lookup h ap = Some (CVal v) \<longrightarrow>
         Copy c (Suc (Suc n)) h (Some (VPtr (TPtr t) (Some ap))) = Panicked ?m"
    by (simp add: Copy_def ValueOf_def alloc_def base copy_dispatch)
  have 3: "Copy c (Suc (Suc (Suc n))) h
      (Some (VStruct (TStruct [StructField nm TInterface [] True]) [VInterface TInterface (Some v)]))
      = Panicked ?m"
    by (simp add: Copy_def ValueOf_def base copy_dispatch copyField_def)
  have 4: "exported fld \<and> ftag fld = [] \<longrightarrow>
         Copy c (Suc (Suc n)) h (Some (VStruct (TStruct (fld # flds)) (v # vs))) = Panicked ?m"
    by (simp add: Copy_def ValueOf_def base copy_dispatch copyField_def)
  have 5: "lookup h as = Some (CArr (v # xs)) \<longrightarrow>
         Copy c (Suc (Suc n)) h (Some (VSlice (TSlice t) (Some (SliceHdr as 0 (Suc l) cp)))) = Panicked ?m"
    by (auto simp add: Copy_def ValueOf_def base copy_dispatch MakeSlice_def alloc_def upt_rec
         Index_slice_def lookup_def nth_append split: if_splits)
  have 6: "Copy c (Suc (Suc n)) h (Some (VArray (TArray (Suc l) t) (v # vs))) = Panicked ?m"
    by (simp add: Copy_def ValueOf_def base copy_dispatch upt_rec)
  have 7: "lookup h am = Some (CMap ((k0, v) # es)) \<and> Kind k0 = KBasic BString \<and> \<not> is_time (type_of k0) \<longrightarrow>
         Copy c (Suc (Suc n)) h (Some (VMap (TMap kt t) (Some am))) = Panicked ?m"
    by (auto simp add: Copy_def ValueOf_def base copy_dispatch alloc_def copy_passthrough passthrough_kinds_iff)
  show ?thesis using base 1 2 3 4 5 6 7 by blast
qed

theorem raw_address_kind_panics_witness:
  "Copy (\<lambda>tg. None) 1 [] (Some (VBasic (TBasic BUintptr) (SUint 4096)))
     = Panicked ''unsupported type: uintptr''
   \<and> Copy (\<lambda>tg. None) 2
       [CVal (VBasic (TBasic BUintptr) (SUint 4096)),
        CArr [VBasic (TBasic BUintptr) (SUint 4096)],
        CMap [(VBasic (TBasic BString) (SString ''k''), VBasic (TBasic BUintptr) (SUint 4096))]]
       (Some (VPtr (TPtr (TBasic BUintptr)) (Some 0)))
     = Panicked ''unsupported type: uintptr''
   \<and> Copy (\<lambda>tg. None) 2
       [CVal (VBasic (TBasic BUintptr) (SUint 4096)),
        CArr [VBasic (TBasic BUintptr) (SUint 4096)],
        CMap [(VBasic (TBasic BString) (SString ''k''), VBasic (TBasic BUintptr) (SUint 4096))]]
       (Some (VSlice (TSlice (TBasic BUintptr)) (Some (SliceHdr 1 0 1 1))))
     = Panicked ''unsupported type: uintptr''
   \<and> Copy (\<lambda>tg. None) 2
       [CVal (VBasic (TBasic BUintptr) (SUint 4096)),
        CArr [VBasic (TBasic BUintptr) (SUint 4096)],
        CMap [(VBasic (TBasic BString) (SString ''k''), VBasic (TBasic BUintptr) (SUint 4096))]]
       (Some (VMap (TMap (TBasic BString) (TBasic BUintptr)) (Some 2)))
     = Panicked ''unsupported type: uintptr''
   \<and> Copy (\<lambda>tg. None) 2 []
       (Some (VStruct (TStruct [StructField ''P'' (TBasic BUintptr) [] True])
          [VBasic (TBasic BUintptr) (SUint 4096)]))
     = Panicked ''unsupported type: uintptr''"
proof -
  let ?v = "VBasic (TBasic BUintptr) (SUint 4096)"
  let ?h = "[CVal ?v, CArr [?v], CMap [(VBasic (TBasic BString) (SString ''k''), ?v)]]"
  have nt: "\<not> is_time (type_of ?v)" by simp
  have k: "Kind ?v = KBasic BUintptr \<or> Kind ?v = KBasic BUnsafePointer" by simp
  have a: "Copy (\<lambda>tg. None) (Suc 0) [] (Some ?v) = Panicked ''unsupported type: uintptr''"
    using raw_address_kind_panics [OF nt k, of "\<lambda>tg. None" 0 "[]"] by simp
  have b: "Copy (\<lambda>tg. None) (Suc (Suc 0)) ?h (Some (VPtr (TPtr (TBasic BUintptr)) (Some 0)))
             = Panicked ''unsupported type: uintptr''
     \<and> Copy (\<lambda>tg. None) (Suc (Suc 0)) ?h (Some (VSlice (TSlice (TBasic BUintptr)) (Some (SliceHdr 1 0 1 1))))
             = Panicked ''unsupported type: uintptr''
     \<and> Copy (\<lambda>tg. None) (Suc (Suc 0)) ?h (Some (VMap (TMap (TBasic BString) (TBasic BUintptr)) (Some 2)))
             = Panicked ''unsupported type: uintptr''"
    using raw_address_kind_panics [OF nt k, of "\<lambda>tg. None" 0 ?h 0 "TBasic BUintptr" undefined
        "StructField ''P'' (TBasic BUintptr) [] True" "[]" "[]" 1 "[]" 0 1 2
        "VBasic (TBasic BString) (SString ''k'')" "[]" "TBasic BString"]
    by (simp add: lookup_def)
  have c: "Copy (\<lambda>tg. None) (Suc (Suc 0)) []
       (Some (VStruct (TStruct [StructField ''P'' (TBasic BUintptr) [] True]) [?v]))
     = Panicked ''unsupported type: uintptr''"
    using raw_address_kind_panics [OF nt k, of "\<lambda>tg. None" 0 "[]" 0 "TBasic BUintptr" undefined
        "StructField ''P'' (TBasic BUintptr) [] True" "[]" "[]"]
    by simp
  show ?thesis using a b c by (simp add: numeral_2_eq_2)
qed

section \<open>Nil values\<close>

text \<open>
  Claim C4. The copy of a nil pointer, slice, map or interface value (and of a
  nil channel or function) is that same value, of the same type, and the store
  is unchanged: nothing is allocated in its place. This holds for every call of
  \<^verbatim>\<open>copy\<close>, so at every depth; \<^verbatim>\<open>Copy\<close> returns it as it is, and as the value
  of an exported, untagged struct field it leaves the field of the copy nil.
\<close>

theorem nil_stays_nil:
  assumes "kind_ok v" and "IsNil v"
  shows "copy c (Suc n) h (Some v) = Ok h v
    \<and> (Kind v \<noteq> KInterface \<longrightarrow> Copy c (Suc n) h (Some v) = Returned h (Some v) None)
    \<and> (exported fld \<and> ftag fld = [] \<and> ftype fld = type_of v \<longrightarrow>
         copyFields (copy c (Suc n)) c h (fld # flds) (v # vs) =
           (case copyFields (copy c (Suc n)) c h flds vs of
              Ok h' ocs \<Rightarrow> Ok h' (v # ocs) | r \<Rightarrow> r))"
proof -
  have 1: "\<And>n h. copy c (Suc n) h (Some v) = Ok h v"
    using assms by (rule copy_nil)
  have 2: "Kind v \<noteq> KInterface \<longrightarrow> Copy c (Suc n) h (Some v) = Returned h (Some v) None"
    using assms by (simp add: Copy_Ok [OF 1] Interface_not_interface)
  have 3: "exported fld \<and> ftag fld = [] \<and> ftype fld = type_of v \<longrightarrow>
         copyFields (copy c (Suc n)) c h (fld # flds) (v # vs) =
           (case copyFields (copy c (Suc n)) c h flds vs of
              Ok h' ocs \<Rightarrow> Ok h' (v # ocs) | r \<Rightarrow> r)"
  proof (intro impI, elim conjE)
    assume a: "exported fld" "ftag fld = []" "ftype fld = type_of v"
    show "copyFields (copy c (Suc n)) c h (fld # flds) (v # vs) =
           (case copyFields (copy c (Suc n)) c h flds vs of
              Ok h' ocs \<Rightarrow> Ok h' (v # ocs) | r \<Rightarrow> r)"
      using a 1 IsNil_Zero [OF assms]
      by (intro copyFields_same [where rec = "copy c (Suc n)"])
  qed
  show ?thesis using 1 2 3 by blast
qed


theorem nil_stays_nil_witness:
  "kind_ok (VPtr (TPtr (TBasic BInt)) None) \<and> IsNil (VPtr (TPtr (TBasic BInt)) None)
   \<and> copy (\<lambda>tg. None) 1 [] (Some (VPtr (TPtr (TBasic BInt)) None))
        = Ok [] (VPtr (TPtr (TBasic BInt)) None)
   \<and> Copy (\<lambda>tg. None) 1 [] (Some (VPtr (TPtr (TBasic BInt)) None))
        = Returned [] (Some (VPtr (TPtr (TBasic BInt)) None)) None
   \<and> copyFields (copy (\<lambda>tg. None) 1) (\<lambda>tg. None) []
        [StructField ''P'' (TPtr (TBasic BInt)) [] True] [VPtr (TPtr (TBasic BInt)) None]
        = Ok [] [VPtr (TPtr (TBasic BInt)) None]"
proof -
  let ?v = "VPtr (TPtr (TBasic BInt)) None"
  have a: "kind_ok ?v" by simp
  have b: "IsNil ?v" by simp
  show ?thesis
    using a b nil_stays_nil [OF a b, of "\<lambda>tg. None" 0 "[]"
        "StructField ''P'' (TPtr (TBasic BInt)) [] True" "[]" "[]"]
    by simp
qed

section \<open>Values passed through\<close>

text \<open>
  Claim C7. A value of kind func or chan, of a basic kind other than \<^verbatim>\<open>uintptr\<close>
  and \<^verbatim>\<open>unsafe.Pointer\<close> (booleans, integers, floats, complex numbers, strings),
  or of type \<^verbatim>\<open>time.Time\<close>, is returned by \<^verbatim>\<open>copy\<close> as it is, with the store
  unchanged: the copy of a channel is the same handle. \<^verbatim>\<open>Copy\<close> returns the same
  value, and an exported, untagged channel field of a struct holds the same
  channel in the copy.
\<close>

theorem passthrough_unchanged:
  assumes "Kind v = KFunc \<or> Kind v = KChan
      \<or> (\<exists>b. Kind v = KBasic b \<and> b \<noteq> BUintptr \<and> b \<noteq> BUnsafePointer)
      \<or> is_time (type_of v)"
  shows "copy c (Suc n) h (Some v) = Ok h v
    \<and> (kind_ok v \<and> Kind v \<noteq> KInterface \<longrightarrow> Copy c (Suc n) h (Some v) = Returned h (Some v) None)
    \<and> (exported fld \<and> ftag fld = [] \<and> ftype fld = type_of v \<and> kind_ok v \<and> Kind v = KChan \<longrightarrow>
         copyFields (copy c (Suc n)) c h (fld # flds) (v # vs) =
           (case copyFields (copy c (Suc n)) c h flds vs of
              Ok h' ocs \<Rightarrow> Ok h' (v # ocs) | r \<Rightarrow> r))"
proof -
  have 1: "\<And>n h. copy c (Suc n) h (Some v) = Ok h v"
    using assms by (auto simp: copy_time copy_passthrough passthrough_kinds_iff)
  have 2: "kind_ok v \<and> Kind v \<noteq> KInterface \<longrightarrow> Copy c (Suc n) h (Some v) = Returned h (Some v) None"
    by (simp add: Copy_Ok [OF 1] Interface_not_interface)
  have 3: "exported fld \<and> ftag fld = [] \<and> ftype fld = type_of v \<and> kind_ok v \<and> Kind v = KChan \<longrightarrow>
         copyFields (copy c (Suc n)) c h (fld # flds) (v # vs) =
           (case copyFields (copy c (Suc n)) c h flds vs of
              Ok h' ocs \<Rightarrow> Ok h' (v # ocs) | r \<Rightarrow> r)"
  proof (intro impI, elim conjE)
    assume a: "exported fld" "ftag fld = []" "ftype fld = type_of v" "kind_ok v" "Kind v = KChan"
    have "IsZero v \<Longrightarrow> Zero (type_of v) = v"
      using a(4,5) by (cases v) (simp_all add: Zero_nilable)
    with a 1 show "copyFields (copy c (Suc n)) c h (fld # flds) (v # vs) =
           (case copyFields (copy c (Suc n)) c h flds vs of
              Ok h' ocs \<Rightarrow> Ok h' (v # ocs) | r \<Rightarrow> r)"
      by (intro copyFields_same [where rec = "copy c (Suc n)"])
  qed
  show ?thesis using 1 2 3 by blast
qed


theorem passthrough_unchanged_witness:
  "copy (\<lambda>tg. None) 1 [] (Some (VChan (TChan (TBasic BInt)) (Some 7)))
        = Ok [] (VChan (TChan (TBasic BInt)) (Some 7))
   \<and> Copy (\<lambda>tg. None) 1 [] (Some (VChan (TChan (TBasic BInt)) (Some 7)))
        = Returned [] (Some (VChan (TChan (TBasic BInt)) (Some 7))) None
   \<and> copyFields (copy (\<lambda>tg. None) 1) (\<lambda>tg. None) []
        [StructField ''C'' (TChan (TBasic BInt)) [] True] [VChan (TChan (TBasic BInt)) (Some 7)]
        = Ok [] [VChan (TChan (TBasic BInt)) (Some 7)]"
proof -
  let ?v = "VChan (TChan (TBasic BInt)) (Some 7)"
  have a: "Kind ?v = KFunc \<or> Kind ?v = KChan
      \<or> (\<exists>b. Kind ?v = KBasic b \<and> b \<noteq> BUintptr \<and> b \<noteq> BUnsafePointer)
      \<or> is_time (type_of ?v)" by simp
  show ?thesis
    using passthrough_unchanged [OF a, of "\<lambda>tg. None" 0 "[]"
        "StructField ''C'' (TChan (TBasic BInt)) [] True" "[]" "[]"]
    by (simp add: copy_passthrough passthrough_kinds_iff)
qed

section \<open>Empty slices and maps\<close>

text \<open>
  Claim C9. The copy of a slice that is not nil and has length 0 is a slice
  that is not nil, of the same type and of length 0, on a backing array
  allocated by the copy (its address is the first free one of the store); the
  copy of a map that is not nil and has no entries is a map that is not nil, of
  the same type, empty, at a newly allocated address. This holds for every call
  of \<^verbatim>\<open>copy\<close>, so at every depth.
\<close>

theorem empty_stays_empty:
  "(kind_ok (VSlice t (Some s)) \<and> slen s = 0 \<longrightarrow>
      copy c (Suc n) h (Some (VSlice t (Some s)))
        = Ok (h @ [CArr []]) (VSlice t (Some (SliceHdr (length h) 0 0 0))))
   \<and> (kind_ok (VMap t (Some a)) \<and> lookup h a = Some (CMap []) \<longrightarrow>
      copy c (Suc n) h (Some (VMap t (Some a)))
        = Ok (h @ [CMap []]) (VMap t (Some (length h))))"
  by (simp add: copy_dispatch MakeSlice_def alloc_def)


theorem empty_stays_empty_witness:
  "copy (\<lambda>tg. None) 1 [CArr [], CMap []] (Some (VSlice (TSlice (TBasic BInt)) (Some (SliceHdr 0 0 0 0))))
     = Ok [CArr [], CMap [], CArr []] (VSlice (TSlice (TBasic BInt)) (Some (SliceHdr 2 0 0 0)))
   \<and> copy (\<lambda>tg. None) 1 [CArr [], CMap []] (Some (VMap (TMap (TBasic BString) (TBasic BInt)) (Some 1)))
     = Ok [CArr [], CMap [], CMap []] (VMap (TMap (TBasic BString) (TBasic BInt)) (Some 2))"
  using empty_stays_empty [of "TSlice (TBasic BInt)" "SliceHdr 0 0 0 0" "\<lambda>tg. None" 0 "[CArr [], CMap []]"]
    empty_stays_empty [of "TMap (TBasic BString) (TBasic BInt)" _ "\<lambda>tg. None" 0 "[CArr [], CMap []]" 1]
  by (simp add: lookup_def)

section \<open>Tagged fields\<close>

text \<open>
  Claim C1, amended. The claim as stated fails for a tagged field that is not
  exported (the loop skips it before looking at the tag, so the transformer is
  not called and the field of the copy is zero) and for a transformer whose
  result \<^verbatim>\<open>IsZero\<close> accepts without its being the zero value of the field's
  type: the zero value of another type, or a negative float zero (the
  assignment is skipped and the field keeps the zero value of its own type).
  What holds: when \<^verbatim>\<open>copy\<close> of a struct succeeds, and field \<open>i\<close> is exported and
  carries a tag that the registry binds to \<open>fn\<close>, then \<open>fn\<close> was called on the
  original value of the field, in the store \<open>h1\<close> left by the fields before it,
  and returned \<open>r\<close>. When \<open>r\<close> is not zero, field \<open>i\<close> of the copy is \<open>r\<close>
  assigned to the field's type; when \<open>r\<close> is zero, the field is the zero value
  of its type. So the field is \<open>r\<close> itself when \<open>r\<close> has the field's type and is
  not zero or is the zero value of that type, and for every well-typed \<open>r\<close> of
  the field's type it is \<open>r\<close> up to the sign of a float zero and the content of
  blank fields (\<open>norm_zero\<close>). The loop goes on from the store \<open>h2\<close> that the
  call returned: the recursive copy is not applied to the field.
\<close>

theorem tagged_field_transformed:
  assumes ok: "copy c (Suc n) h (Some (VStruct t vs)) = Ok h' oc"
    and t: "kind_of t = KStruct" "\<not> is_time t"
    and i: "i < length (fields_of t)"
    and f: "exported (fields_of t ! i)" "ftag (fields_of t ! i) \<noteq> []"
      "c (ftag (fields_of t ! i)) = Some fn"
  shows "\<exists>ocs h1 h2 r rs.
      oc = VStruct t ocs \<and> length ocs = length (fields_of t) \<and> i < length vs
    \<and> copyFields (copy c n) c h (take i (fields_of t)) (take i vs) = Ok h1 (take i ocs)
    \<and> Call fn h1 (vs ! i) = CRet h2 (r # rs)
    \<and> (IsZero r \<longrightarrow> ocs ! i = Zero (ftype (fields_of t ! i)))
    \<and> (\<not> IsZero r \<longrightarrow> assignTo r (ftype (fields_of t ! i)) = Some (ocs ! i))
    \<and> (type_of r = ftype (fields_of t ! i) \<and> (\<not> IsZero r \<or> r = Zero (ftype (fields_of t ! i)))
          \<longrightarrow> ocs ! i = r)
    \<and> (wt r \<and> type_of r = ftype (fields_of t ! i) \<longrightarrow> norm_zero (ocs ! i) = norm_zero r)
    \<and> copyFields (copy c n) c h2 (drop (Suc i) (fields_of t)) (drop (Suc i) vs)
         = Ok h' (drop (Suc i) ocs)"
proof -
  let ?fs = "fields_of t" and ?rec = "copy c n"
  obtain ocs where oc: "oc = VStruct t ocs" and cf: "copyFields ?rec c h ?fs vs = Ok h' ocs"
    using copy_struct_Ok [OF ok t] by blast
  have len: "length ocs = length ?fs" and iv: "i < length vs"
    using copyFields_length [OF cf] i by simp_all
  from cf obtain h1 ocs1 h2 x ocs2 where
      a: "copyFields ?rec c h (take i ?fs) (take i vs) = Ok h1 ocs1"
    and b: "copyField ?rec c h1 (?fs ! i) (vs ! i) = Ok h2 x"
    and d: "copyFields ?rec c h2 (drop (Suc i) ?fs) (drop (Suc i) vs) = Ok h' ocs2"
    and e: "ocs = ocs1 @ x # ocs2"
    unfolding copyFields_split [OF i iv] by (auto split: result.splits)
  have l1: "length ocs1 = i"
    using copyFields_length [OF a] i by simp
  have t1: "take i ocs = ocs1" and x: "ocs ! i = x" and d1: "drop (Suc i) ocs = ocs2"
    using e l1 by (simp_all add: nth_append)
  obtain r rs where call: "Call fn h1 (vs ! i) = CRet h2 (r # rs)"
    and z: "IsZero r \<longrightarrow> x = Zero (ftype (?fs ! i))"
    and nz: "\<not> IsZero r \<longrightarrow> assignTo r (ftype (?fs ! i)) = Some x"
    using copyField_tagged_Ok [OF b f] by blast
  have same: "type_of r = ftype (?fs ! i) \<and> (\<not> IsZero r \<or> r = Zero (ftype (?fs ! i))) \<longrightarrow> x = r"
  proof (intro impI, elim conjE)
    assume ty: "type_of r = ftype (?fs ! i)" and c: "\<not> IsZero r \<or> r = Zero (ftype (?fs ! i))"
    show "x = r"
    proof (cases "IsZero r")
      case True
      then show ?thesis using z c by simp
    next
      case False
      then have "assignTo r (type_of r) = Some x" using nz ty by simp
      then show ?thesis by simp
    qed
  qed
  have upto: "wt r \<and> type_of r = ftype (?fs ! i) \<longrightarrow> norm_zero x = norm_zero r"
  proof (intro impI, elim conjE)
    assume w: "wt r" and ty: "type_of r = ftype (?fs ! i)"
    show "norm_zero x = norm_zero r"
    proof (cases "IsZero r")
      case True
      then show ?thesis using z wt_IsZero [OF w True] ty by simp
    next
      case False
      then have "assignTo r (type_of r) = Some x" using nz ty by simp
      then show ?thesis by simp
    qed
  qed
  have c4: "copyFields ?rec c h (take i ?fs) (take i vs) = Ok h1 (take i ocs)"
    using a t1 by simp
  have c6: "IsZero r \<longrightarrow> ocs ! i = Zero (ftype (?fs ! i))"
    using z x by simp
  have c7: "\<not> IsZero r \<longrightarrow> assignTo r (ftype (?fs ! i)) = Some (ocs ! i)"
    using nz x by simp
  have c8: "type_of r = ftype (?fs ! i) \<and> (\<not> IsZero r \<or> r = Zero (ftype (?fs ! i)))
      \<longrightarrow> ocs ! i = r"
    using same x by simp
  have c8': "wt r \<and> type_of r = ftype (?fs ! i) \<longrightarrow> norm_zero (ocs ! i) = norm_zero r"
    using upto x by simp
  have c9: "copyFields ?rec c h2 (drop (Suc i) ?fs) (drop (Suc i) vs) = Ok h' (drop (Suc i) ocs)"
    using d d1 by simp
  have "oc = VStruct t ocs \<and> length ocs = length ?fs \<and> i < length vs
    \<and> copyFields ?rec c h (take i ?fs) (take i vs) = Ok h1 (take i ocs)
    \<and> Call fn h1 (vs ! i) = CRet h2 (r # rs)
    \<and> (IsZero r \<longrightarrow> ocs ! i = Zero (ftype (?fs ! i)))
    \<and> (\<not> IsZero r \<longrightarrow> assignTo r (ftype (?fs ! i)) = Some (ocs ! i))
    \<and> (type_of r = ftype (?fs ! i) \<and> (\<not> IsZero r \<or> r = Zero (ftype (?fs ! i)))
          \<longrightarrow> ocs ! i = r)
    \<and> (wt r \<and> type_of r = ftype (?fs ! i) \<longrightarrow> norm_zero (ocs ! i) = norm_zero r)
    \<and> copyFields ?rec c h2 (drop (Suc i) ?fs) (drop (Suc i) vs) = Ok h' (drop (Suc i) ocs)"
    using oc len iv c4 call c6 c7 c8 c8' c9 by (intro conjI)
  then show ?thesis by (intro exI)
qed

theorem tagged_field_transformed_witness:
  "\<exists>ocs. copy (\<lambda>tg. if tg = ''anonymiseName''
                   then Some (RFunc [TBasic BString] (\<lambda>h args. CRet h [VBasic (TBasic BString) (SString ''john doe'')]))
                   else None) 2 []
        (Some (VStruct (TNamed ''ccopy'' ''T''
                  (TStruct [StructField ''A'' (TBasic BInt) [] True,
                            StructField ''Name'' (TBasic BString) ''anonymiseName'' True]))
           [VBasic (TBasic BInt) (SInt 2), VBasic (TBasic BString) (SString ''Secret name'')]))
      = Ok [] (VStruct (TNamed ''ccopy'' ''T''
                  (TStruct [StructField ''A'' (TBasic BInt) [] True,
                            StructField ''Name'' (TBasic BString) ''anonymiseName'' True])) ocs)
    \<and> ocs ! 1 = VBasic (TBasic BString) (SString ''john doe'')"
proof -
  let ?fn = "RFunc [TBasic BString] (\<lambda>h args. CRet h [VBasic (TBasic BString) (SString ''john doe'')])"
  let ?c = "\<lambda>tg. if tg = ''anonymiseName'' then Some ?fn else None"
  let ?t = "TNamed ''ccopy'' ''T''
                  (TStruct [StructField ''A'' (TBasic BInt) [] True,
                            StructField ''Name'' (TBasic BString) ''anonymiseName'' True])"
  let ?vs = "[VBasic (TBasic BInt) (SInt 2), VBasic (TBasic BString) (SString ''Secret name'')]"
  let ?oc = "VStruct ?t [VBasic (TBasic BInt) (SInt 2), VBasic (TBasic BString) (SString ''john doe'')]"
  have ok: "copy ?c (Suc 1) [] (Some (VStruct ?t ?vs)) = Ok [] ?oc"
    by (simp add: copy_dispatch is_time_def copyField_def copy_passthrough passthrough_kinds_iff
         assignTo_def directlyAssignable_def)
  have t: "kind_of ?t = KStruct" "\<not> is_time ?t" by (simp_all add: is_time_def)
  have i: "1 < length (fields_of ?t)" by simp
  have f: "exported (fields_of ?t ! 1)" "ftag (fields_of ?t ! 1) \<noteq> []"
    "?c (ftag (fields_of ?t ! 1)) = Some ?fn" by simp_all
  from tagged_field_transformed [OF ok t i f]
  obtain ocs h1 h2 r rs where oc: "?oc = VStruct ?t ocs"
    and call: "Call ?fn h1 (?vs ! 1) = CRet h2 (r # rs)"
    and same: "type_of r = ftype (fields_of ?t ! 1)
        \<and> (\<not> IsZero r \<or> r = Zero (ftype (fields_of ?t ! 1))) \<longrightarrow> ocs ! 1 = r"
    by blast
  have r: "r = VBasic (TBasic BString) (SString ''john doe'')"
    using call by (simp add: assignTo_def directlyAssignable_def)
  have "ocs ! 1 = VBasic (TBasic BString) (SString ''john doe'')"
    using same r by simp
  with ok oc show ?thesis by (simp add: numeral_2_eq_2)
qed

text \<open>
  The claim as stated is false at a struct whose tagged field \<^verbatim>\<open>name\<close> is not
  exported (the copy holds the empty string, the transformer returns
  \<^verbatim>\<open>john doe\<close>), at a registry whose transformer has type
  \<^verbatim>\<open>func(string) int\<close> and returns 0 (the copy holds the empty string, not the
  integer 0), and at a field of type \<^verbatim>\<open>float64\<close> whose transformer returns the
  negative zero (the copy holds the positive zero).
\<close>

theorem tagged_field_counterexample:
  "Copy (\<lambda>tg. if tg = ''anonymiseName''
                then Some (RFunc [TBasic BString] (\<lambda>h args. CRet h [VBasic (TBasic BString) (SString ''john doe'')]))
                else None) 2 []
        (Some (VStruct (TStruct [StructField ''name'' (TBasic BString) ''anonymiseName'' False])
                 [VBasic (TBasic BString) (SString ''Secret name'')]))
     = Returned [] (Some (VStruct (TStruct [StructField ''name'' (TBasic BString) ''anonymiseName'' False])
                 [VBasic (TBasic BString) (SString [])])) None
   \<and> Call (RFunc [TBasic BString] (\<lambda>h args. CRet h [VBasic (TBasic BString) (SString ''john doe'')])) []
          (VBasic (TBasic BString) (SString ''Secret name''))
     = CRet [] [VBasic (TBasic BString) (SString ''john doe'')]
   \<and> Copy (\<lambda>tg. if tg = ''f''
                then Some (RFunc [TBasic BString] (\<lambda>h args. CRet h [VBasic (TBasic BInt) (SInt 0)]))
                else None) 2 []
        (Some (VStruct (TStruct [StructField ''Name'' (TBasic BString) ''f'' True])
                 [VBasic (TBasic BString) (SString ''Secret name'')]))
     = Returned [] (Some (VStruct (TStruct [StructField ''Name'' (TBasic BString) ''f'' True])
                 [VBasic (TBasic BString) (SString [])])) None
   \<and> Call (RFunc [TBasic BString] (\<lambda>h args. CRet h [VBasic (TBasic BInt) (SInt 0)])) []
          (VBasic (TBasic BString) (SString ''Secret name''))
     = CRet [] [VBasic (TBasic BInt) (SInt 0)]
   \<and> Copy (\<lambda>tg. if tg = ''neg''
                then Some (RFunc [TBasic BFloat64] (\<lambda>h args. CRet h [VBasic (TBasic BFloat64) (SFloat (Flt True 0))]))
                else None) 2 []
        (Some (VStruct (TStruct [StructField ''F'' (TBasic BFloat64) ''neg'' True])
                 [VBasic (TBasic BFloat64) (SFloat (Flt False 1))]))
     = Returned [] (Some (VStruct (TStruct [StructField ''F'' (TBasic BFloat64) ''neg'' True])
                 [VBasic (TBasic BFloat64) (SFloat (Flt False 0))])) None
   \<and> Call (RFunc [TBasic BFloat64] (\<lambda>h args. CRet h [VBasic (TBasic BFloat64) (SFloat (Flt True 0))])) []
          (VBasic (TBasic BFloat64) (SFloat (Flt False 1)))
     = CRet [] [VBasic (TBasic BFloat64) (SFloat (Flt True 0))]"
  by (simp add: Copy_def ValueOf_def numeral_2_eq_2 copy_dispatch copyField_def
       assignTo_def directlyAssignable_def)

section \<open>Missing transformer\<close>

text \<open>
  Claim C3, amended. The claim as stated fails for a tagged field that is not
  exported (it is skipped and \<^verbatim>\<open>Copy\<close> succeeds) and when a field before it
  already stops the copy (for instance by a panic). What holds: when the fields
  before field \<open>i\<close> are copied without failure, and field \<open>i\<close> is exported and
  carries a tag that the registry does not bind, \<^verbatim>\<open>Copy\<close> returns the nil
  interface together with the error \<^verbatim>\<open>missing copy customiser for: <tag>\<close>; no
  struct is returned.
\<close>

theorem missing_transformer_error:
  assumes "kind_of t = KStruct" and "\<not> is_time t"
    and "i < length (fields_of t)" and "i < length vs"
    and "copyFields (copy c n) c h (take i (fields_of t)) (take i vs) = Ok h1 ocs"
    and "exported (fields_of t ! i)" and "ftag (fields_of t ! i) \<noteq> []"
    and "c (ftag (fields_of t ! i)) = None"
  shows "Copy c (Suc n) h (Some (VStruct t vs))
    = Returned h1 None (Some (''missing copy customiser for: '' @ ftag (fields_of t ! i)))"
proof -
  have "copyField (copy c n) c h1 (fields_of t ! i) (vs ! i)
      = Error h1 (''missing copy customiser for: '' @ ftag (fields_of t ! i))"
    using assms(6,7,8) by (simp add: copyField_def)
  then have "copyFields (copy c n) c h (fields_of t) vs
      = Error h1 (''missing copy customiser for: '' @ ftag (fields_of t ! i))"
    using assms(5) by (simp add: copyFields_split [OF assms(3,4)])
  then show ?thesis
    using assms(1,2) by (simp add: Copy_def ValueOf_def copy_struct_eq)
qed

theorem missing_transformer_error_witness:
  "Copy (\<lambda>tg. None) 2 []
     (Some (VStruct (TNamed ''ccopy'' ''T''
                  (TStruct [StructField ''A'' (TBasic BInt) [] True,
                            StructField ''Name'' (TBasic BString) ''anonymiseName'' True]))
           [VBasic (TBasic BInt) (SInt 2), VBasic (TBasic BString) (SString ''Secret name'')]))
   = Returned [] None (Some ''missing copy customiser for: anonymiseName'')"
proof -
  let ?c = "\<lambda>tg::string. None :: regval option"
  let ?t = "TNamed ''ccopy'' ''T''
                  (TStruct [StructField ''A'' (TBasic BInt) [] True,
                            StructField ''Name'' (TBasic BString) ''anonymiseName'' True])"
  let ?vs = "[VBasic (TBasic BInt) (SInt 2), VBasic (TBasic BString) (SString ''Secret name'')]"
  have t: "kind_of ?t = KStruct" "\<not> is_time ?t" by (simp_all add: is_time_def)
  have i: "1 < length (fields_of ?t)" "1 < length ?vs" by simp_all
  have p: "copyFields (copy ?c 1) ?c [] (take 1 (fields_of ?t)) (take 1 ?vs)
      = Ok [] [VBasic (TBasic BInt) (SInt 2)]"
    by (simp add: copyField_def copy_passthrough passthrough_kinds_iff
         assignTo_def directlyAssignable_def)
  have f: "exported (fields_of ?t ! 1)" "ftag (fields_of ?t ! 1) \<noteq> []"
    "?c (ftag (fields_of ?t ! 1)) = None" by simp_all
  show ?thesis
    using missing_transformer_error [OF t i p f] by (simp add: numeral_2_eq_2)
qed

text \<open>
  The claim as stated is false at a struct whose only field is tagged, not
  exported, with an empty registry (\<^verbatim>\<open>Copy\<close> returns a struct and no error), and
  at a struct whose tagged field comes after a field of kind \<^verbatim>\<open>uintptr\<close>
  (\<^verbatim>\<open>Copy\<close> panics).
\<close>

theorem missing_transformer_counterexample:
  "Copy (\<lambda>tg. None) 2 []
     (Some (VStruct (TStruct [StructField ''name'' (TBasic BString) ''anonymiseName'' False])
              [VBasic (TBasic BString) (SString ''Secret name'')]))
     = Returned [] (Some (VStruct (TStruct [StructField ''name'' (TBasic BString) ''anonymiseName'' False])
              [VBasic (TBasic BString) (SString [])])) None
   \<and> Copy (\<lambda>tg. None) 2 []
     (Some (VStruct (TStruct [StructField ''P'' (TBasic BUintptr) [] True,
                              StructField ''Name'' (TBasic BString) ''anonymiseName'' True])
              [VBasic (TBasic BUintptr) (SUint 4096), VBasic (TBasic BString) (SString ''Secret name'')]))
     = Panicked ''unsupported type: uintptr''"
  by (simp add: Copy_def ValueOf_def numeral_2_eq_2 copy_dispatch copyField_def copy_unsupported)

section \<open>Unexported fields\<close>

text \<open>
  Claim C10, amended. The claim as stated fails for a value of type
  \<^verbatim>\<open>time.Time\<close>, a struct with unexported fields that is returned as it is, and
  \<^verbatim>\<open>Copy\<close> of a struct with unexported fields need not succeed, since an
  exported field can still fail. What holds, for a struct whose type is not
  \<^verbatim>\<open>time.Time\<close>: whenever \<^verbatim>\<open>copy\<close> succeeds, every unexported field of
  the copy holds the zero value of its type; and the unexported fields are not
  read: two inputs that differ only in unexported fields have the same outcome.
\<close>

theorem unexported_fields_zero:
  assumes "kind_of t = KStruct" and "\<not> is_time t"
  shows "(copy c (Suc n) h (Some (VStruct t vs)) = Ok h' oc \<longrightarrow>
           (\<exists>ocs. oc = VStruct t ocs \<and> length ocs = length (fields_of t)
              \<and> (\<forall>i<length (fields_of t). \<not> exported (fields_of t ! i)
                    \<longrightarrow> ocs ! i = Zero (ftype (fields_of t ! i)))))
    \<and> (length vs' = length vs
         \<and> (\<forall>i<length (fields_of t). i < length vs \<longrightarrow> exported (fields_of t ! i) \<longrightarrow> vs' ! i = vs ! i)
         \<longrightarrow> Copy c (Suc n) h (Some (VStruct t vs')) = Copy c (Suc n) h (Some (VStruct t vs)))"
proof (intro conjI impI)
  assume "copy c (Suc n) h (Some (VStruct t vs)) = Ok h' oc"
  then obtain ocs where oc: "oc = VStruct t ocs"
    and cf: "copyFields (copy c n) c h (fields_of t) vs = Ok h' ocs"
    using copy_struct_Ok assms by blast
  have "length ocs = length (fields_of t)"
    using copyFields_length [OF cf] by simp
  moreover have "\<forall>i<length (fields_of t). \<not> exported (fields_of t ! i)
      \<longrightarrow> ocs ! i = Zero (ftype (fields_of t ! i))"
    using copyFields_unexported_zero [OF cf] by blast
  ultimately show "\<exists>ocs. oc = VStruct t ocs \<and> length ocs = length (fields_of t)
              \<and> (\<forall>i<length (fields_of t). \<not> exported (fields_of t ! i)
                    \<longrightarrow> ocs ! i = Zero (ftype (fields_of t ! i)))"
    using oc by blast
next
  assume a: "length vs' = length vs
         \<and> (\<forall>i<length (fields_of t). i < length vs \<longrightarrow> exported (fields_of t ! i) \<longrightarrow> vs' ! i = vs ! i)"
  have "copyFields (copy c n) c h (fields_of t) vs' = copyFields (copy c n) c h (fields_of t) vs"
    using a by (intro copyFields_ignores_unexported) auto
  then show "Copy c (Suc n) h (Some (VStruct t vs')) = Copy c (Suc n) h (Some (VStruct t vs))"
    using assms by (simp add: Copy_def ValueOf_def copy_struct_eq)
qed

theorem unexported_fields_zero_witness:
  "(\<exists>ocs. copy (\<lambda>tg. None) 2 []
        (Some (VStruct (TStruct [StructField ''A'' (TBasic BInt) [] True,
                                 StructField ''b'' (TBasic BString) [] False])
                 [VBasic (TBasic BInt) (SInt 2), VBasic (TBasic BString) (SString ''x'')]))
      = Ok [] (VStruct (TStruct [StructField ''A'' (TBasic BInt) [] True,
                                 StructField ''b'' (TBasic BString) [] False]) ocs)
      \<and> ocs ! 1 = VBasic (TBasic BString) (SString []))
   \<and> Copy (\<lambda>tg. None) 2 []
        (Some (VStruct (TStruct [StructField ''A'' (TBasic BInt) [] True,
                                 StructField ''b'' (TBasic BString) [] False])
                 [VBasic (TBasic BInt) (SInt 2), VBasic (TBasic BString) (SString ''y'')]))
     = Copy (\<lambda>tg. None) 2 []
        (Some (VStruct (TStruct [StructField ''A'' (TBasic BInt) [] True,
                                 StructField ''b'' (TBasic BString) [] False])
                 [VBasic (TBasic BInt) (SInt 2), VBasic (TBasic BString) (SString ''x'')]))"
proof -
  let ?c = "\<lambda>tg::string. None :: regval option"
  let ?t = "TStruct [StructField ''A'' (TBasic BInt) [] True, StructField ''b'' (TBasic BString) [] False]"
  let ?vs = "[VBasic (TBasic BInt) (SInt 2), VBasic (TBasic BString) (SString ''x'')]"
  let ?vs' = "[VBasic (TBasic BInt) (SInt 2), VBasic (TBasic BString) (SString ''y'')]"
  let ?oc = "VStruct ?t [VBasic (TBasic BInt) (SInt 2), VBasic (TBasic BString) (SString [])]"
  have t: "kind_of ?t = KStruct" "\<not> is_time ?t" by simp_all
  have ok: "copy ?c (Suc 1) [] (Some (VStruct ?t ?vs)) = Ok [] ?oc"
    by (simp add: copy_dispatch copyField_def copy_passthrough passthrough_kinds_iff
         assignTo_def directlyAssignable_def)
  note th = unexported_fields_zero [OF t, of ?c 1 "[]" ?vs "[]" ?oc ?vs']
  from th ok obtain ocs where oc: "?oc = VStruct ?t ocs"
    and z: "\<forall>i<length (fields_of ?t). \<not> exported (fields_of ?t ! i)
                    \<longrightarrow> ocs ! i = Zero (ftype (fields_of ?t ! i))"
    by blast
  have 1: "ocs ! 1 = VBasic (TBasic BString) (SString [])"
    using z by simp
  have "length ?vs' = length ?vs
      \<and> (\<forall>i<length (fields_of ?t). i < length ?vs \<longrightarrow> exported (fields_of ?t ! i) \<longrightarrow> ?vs' ! i = ?vs ! i)"
    by (simp add: less_Suc_eq)
  with th have 2: "Copy ?c (Suc 1) [] (Some (VStruct ?t ?vs')) = Copy ?c (Suc 1) [] (Some (VStruct ?t ?vs))"
    by blast
  show ?thesis using ok oc 1 2 by (simp add: numeral_2_eq_2)
qed

text \<open>
  The claim as stated is false at a value of type \<^verbatim>\<open>time.Time\<close> (the copy keeps
  the unexported field \<^verbatim>\<open>wall\<close> at 5, not at zero), and at a struct with an
  unexported field and an exported field whose tag is not registered (\<^verbatim>\<open>Copy\<close>
  returns an error).
\<close>

theorem unexported_fields_counterexample:
  "Copy (\<lambda>tg. None) 1 []
     (Some (VStruct (TNamed ''time'' ''Time''
                (TStruct [StructField ''wall'' (TBasic BUint64) [] False,
                          StructField ''ext'' (TBasic BInt64) [] False,
                          StructField ''loc'' (TPtr (TNamed ''time'' ''Location'' (TStruct []))) [] False]))
              [VBasic (TBasic BUint64) (SUint 5), VBasic (TBasic BInt64) (SInt 7),
               VPtr (TPtr (TNamed ''time'' ''Location'' (TStruct []))) None]))
   = Returned []
       (Some (VStruct (TNamed ''time'' ''Time''
                (TStruct [StructField ''wall'' (TBasic BUint64) [] False,
                          StructField ''ext'' (TBasic BInt64) [] False,
                          StructField ''loc'' (TPtr (TNamed ''time'' ''Location'' (TStruct []))) [] False]))
              [VBasic (TBasic BUint64) (SUint 5), VBasic (TBasic BInt64) (SInt 7),
               VPtr (TPtr (TNamed ''time'' ''Location'' (TStruct []))) None])) None
   \<and> VBasic (TBasic BUint64) (SUint 5) \<noteq> Zero (TBasic BUint64)
   \<and> Copy (\<lambda>tg. None) 2 []
     (Some (VStruct (TStruct [StructField ''a'' (TBasic BInt) [] False,
                              StructField ''Name'' (TBasic BString) ''anonymiseName'' True])
              [VBasic (TBasic BInt) (SInt 2), VBasic (TBasic BString) (SString ''Secret name'')]))
     = Returned [] None (Some ''missing copy customiser for: anonymiseName'')"
  by (simp add: Copy_def ValueOf_def numeral_2_eq_2 copy_dispatch copyField_def copy_time is_time_def)

section \<open>Slices and arrays\<close>

text \<open>
  Claim C8, amended. The capacity of the copy of a slice is the length of the
  original, not its capacity: the claim as stated fails for a slice whose
  capacity exceeds its length. What holds, for a registry whose functions only
  allocate (they do not write into memory that exists when they are called):
  when \<^verbatim>\<open>copy\<close> of a slice that is not nil succeeds in a store \<open>h\<close>, the cells
  of \<open>h\<close> are unchanged and the result
  is a slice of the same type on a backing array allocated by the copy (at the
  first free address of the store), of the same length as the original and of
  capacity equal to that length. Element \<open>i\<close> of that array is the result \<open>y\<close>
  of the recursive copy of element \<open>i\<close> of the original, assigned to the element
  type: the recursive copy ran in a store \<open>hi\<close> that extends \<open>h\<close>, on the value
  \<open>x\<close> read at index \<open>i\<close> of the original slice (which is the value at index
  \<open>i\<close> in \<open>h\<close> itself when the backing array of the original is a cell of \<open>h\<close>),
  and every cell of the store \<open>hi'\<close> it returned, the new backing array apart,
  is the same in the final store. When \<^verbatim>\<open>copy\<close> of an array succeeds, the cells
  of \<open>h\<close> are unchanged, the result is an array of the same type, with the
  length of the type, and element \<open>i\<close> of it is the result of the recursive copy
  of element \<open>i\<close> of the original, assigned to the element type; that copy ran
  in a store that extends \<open>h\<close> and returned a store that the final store
  extends.
\<close>

theorem slice_array_copy:
  assumes ao: "allocates_only c"
  shows "(kind_ok (VSlice t (Some s)) \<and> copy c (Suc n) h (Some (VSlice t (Some s))) = Ok h' v' \<longrightarrow>
       v' = VSlice t (Some (SliceHdr (length h) 0 (slen s) (slen s))) \<and> prefix h h'
       \<and> (\<exists>ys. lookup h' (length h) = Some (CArr ys) \<and> length ys = slen s
            \<and> (\<forall>i<slen s. \<exists>hi hi' x y.
                  prefix h hi \<and> Index_slice hi s i = Some x
                  \<and> (sbase s < length h \<longrightarrow> Index_slice h s i = Some x)
                  \<and> copy c n hi (Some x) = Ok hi' y
                  \<and> assignTo y (Elem_ty t) = Some (ys ! i)
                  \<and> length hi' \<le> length h'
                  \<and> (\<forall>b<length hi'. b \<noteq> length h \<longrightarrow> lookup h' b = lookup hi' b))))
    \<and> (kind_ok (VArray t vs) \<and> copy c (Suc n) h (Some (VArray t vs)) = Ok h' v' \<longrightarrow>
           (\<exists>ocs. v' = VArray t ocs \<and> length ocs = Len_ty t \<and> prefix h h'
              \<and> (\<forall>i<Len_ty t. i < length vs \<and> (\<exists>hi hi' y.
                    prefix h hi \<and> copy c n hi (Some (vs ! i)) = Ok hi' y
                    \<and> assignTo y (Elem_ty t) = Some (ocs ! i) \<and> prefix hi' h'))))"
proof (rule conjI; rule impI; elim conjE)
  assume k: "kind_ok (VSlice t (Some s))"
    and ok: "copy c (Suc n) h (Some (VSlice t (Some s))) = Ok h' v'"
  let ?h0 = "h @ [CArr (replicate (slen s) (Zero (Elem_ty t)))]"
  from k ok obtain oc' where
    lp: "copySliceLoop (copy c n) ?h0 t s (SliceHdr (length h) 0 0 (slen s)) [0..<slen s] = Ok h' oc'"
    and v': "v' = VSlice t (Some oc')"
    by (auto simp: copy_dispatch MakeSlice_def alloc_def split: result.splits)
  have lk: "lookup ?h0 (length h) = Some (CArr (replicate (slen s) (Zero (Elem_ty t))))"
    by (simp add: lookup_def)
  have p0: "prefix h ?h0" by simp
  have inv: "oc' = SliceHdr (length h) 0 (0 + length [0..<slen s]) (slen s)
       \<and> same_except (length h) ?h0 h'
       \<and> (\<exists>ys'. lookup h' (length h) = Some (CArr ys') \<and> length ys' = slen s
            \<and> take 0 ys' = take 0 (replicate (slen s) (Zero (Elem_ty t)))
            \<and> (\<forall>j<length [0..<slen s]. \<exists>hj hj' x y.
                  same_except (length h) ?h0 hj
                  \<and> Index_slice hj s ([0..<slen s] ! j) = Some x \<and> copy c n hj (Some x) = Ok hj' y
                  \<and> assignTo y (Elem_ty t) = Some (ys' ! (0 + j))
                  \<and> same_except (length h) hj' h'))"
    by (rule copySliceLoop_inv [OF copy_frame [OF ao] lp lk]) simp_all
  then obtain ys where oc0: "oc' = SliceHdr (length h) 0 (0 + length [0..<slen s]) (slen s)"
    and lk': "lookup h' (length h) = Some (CArr ys)" and len: "length ys = slen s"
    and el: "\<forall>j<length [0..<slen s]. \<exists>hj hj' x y.
                  same_except (length h) ?h0 hj
                  \<and> Index_slice hj s ([0..<slen s] ! j) = Some x \<and> copy c n hj (Some x) = Ok hj' y
                  \<and> assignTo y (Elem_ty t) = Some (ys ! (0 + j))
                  \<and> same_except (length h) hj' h'"
    by blast
  have oc': "oc' = SliceHdr (length h) 0 (slen s) (slen s)"
    using oc0 by simp
  have el': "\<forall>i<slen s. \<exists>hi hi' x y.
                  prefix h hi \<and> Index_slice hi s i = Some x
                  \<and> (sbase s < length h \<longrightarrow> Index_slice h s i = Some x)
                  \<and> copy c n hi (Some x) = Ok hi' y
                  \<and> assignTo y (Elem_ty t) = Some (ys ! i)
                  \<and> length hi' \<le> length h'
                  \<and> (\<forall>b<length hi'. b \<noteq> length h \<longrightarrow> lookup h' b = lookup hi' b)"
  proof (intro allI impI)
    fix i assume i: "i < slen s"
    then have "i < length [0..<slen s]" by simp
    with el obtain hi hi' x y where se: "same_except (length h) ?h0 hi"
      and ix0: "Index_slice hi s ([0..<slen s] ! i) = Some x"
      and r: "copy c n hi (Some x) = Ok hi' y"
      and as0: "assignTo y (Elem_ty t) = Some (ys ! (0 + i))"
      and se': "same_except (length h) hi' h'"
      by blast
    have ix: "Index_slice hi s i = Some x" using ix0 i by simp
    have as: "assignTo y (Elem_ty t) = Some (ys ! i)" using as0 by simp
    have p: "prefix h hi"
      using se p0 by (rule same_except_prefix) simp
    have orig: "sbase s < length h \<longrightarrow> Index_slice h s i = Some x"
      using Index_slice_prefix [OF p, of s i] ix by simp
    have "length hi' \<le> length h'"
      and "\<forall>b<length hi'. b \<noteq> length h \<longrightarrow> lookup h' b = lookup hi' b"
      using se' by (simp_all add: same_except_def)
    with p ix orig r as
    show "\<exists>hi hi' x y.
                  prefix h hi \<and> Index_slice hi s i = Some x
                  \<and> (sbase s < length h \<longrightarrow> Index_slice h s i = Some x)
                  \<and> copy c n hi (Some x) = Ok hi' y
                  \<and> assignTo y (Elem_ty t) = Some (ys ! i)
                  \<and> length hi' \<le> length h'
                  \<and> (\<forall>b<length hi'. b \<noteq> length h \<longrightarrow> lookup h' b = lookup hi' b)"
      by blast
  qed
  have ph: "prefix h h'"
    using frameD [OF copy_frame [OF ao] ok] .
  show "v' = VSlice t (Some (SliceHdr (length h) 0 (slen s) (slen s))) \<and> prefix h h'
       \<and> (\<exists>ys. lookup h' (length h) = Some (CArr ys) \<and> length ys = slen s
            \<and> (\<forall>i<slen s. \<exists>hi hi' x y.
                  prefix h hi \<and> Index_slice hi s i = Some x
                  \<and> (sbase s < length h \<longrightarrow> Index_slice h s i = Some x)
                  \<and> copy c n hi (Some x) = Ok hi' y
                  \<and> assignTo y (Elem_ty t) = Some (ys ! i)
                  \<and> length hi' \<le> length h'
                  \<and> (\<forall>b<length hi'. b \<noteq> length h \<longrightarrow> lookup h' b = lookup hi' b)))"
    using v' oc' ph lk' len el' by blast
next
  assume k: "kind_ok (VArray t vs)"
    and ok: "copy c (Suc n) h (Some (VArray t vs)) = Ok h' v'"
  from k ok obtain ocs where
    lp: "copyArrayLoop (copy c n) h t vs (replicate (Len_ty t) (Zero (Elem_ty t))) (Some 0) [0..<Len_ty t]
           = Ok h' ocs"
    and v': "v' = VArray t ocs"
    by (auto simp: copy_dispatch split: result.splits)
  have inv: "length ocs = Len_ty t
       \<and> take 0 ocs = take 0 (replicate (Len_ty t) (Zero (Elem_ty t))) \<and> prefix h h'
       \<and> (\<forall>j<length [0..<Len_ty t]. [0..<Len_ty t] ! j < length vs \<and> (\<exists>hj hj' y.
             prefix h hj \<and> copy c n hj (Some (vs ! ([0..<Len_ty t] ! j))) = Ok hj' y
             \<and> assignTo y (Elem_ty t) = Some (ocs ! (0 + j)) \<and> prefix hj' h'))"
    by (rule copyArrayLoop_inv [OF copy_frame [OF ao] lp]) simp_all
  then have len: "length ocs = Len_ty t" and ph: "prefix h h'"
    and el: "\<forall>j<length [0..<Len_ty t]. [0..<Len_ty t] ! j < length vs \<and> (\<exists>hj hj' y.
             prefix h hj \<and> copy c n hj (Some (vs ! ([0..<Len_ty t] ! j))) = Ok hj' y
             \<and> assignTo y (Elem_ty t) = Some (ocs ! (0 + j)) \<and> prefix hj' h')"
    by blast+
  have el': "\<forall>i<Len_ty t. i < length vs \<and> (\<exists>hi hi' y.
                    prefix h hi \<and> copy c n hi (Some (vs ! i)) = Ok hi' y
                    \<and> assignTo y (Elem_ty t) = Some (ocs ! i) \<and> prefix hi' h')"
    using el by simp
  from el' show "\<exists>ocs. v' = VArray t ocs \<and> length ocs = Len_ty t \<and> prefix h h'
              \<and> (\<forall>i<Len_ty t. i < length vs \<and> (\<exists>hi hi' y.
                    prefix h hi \<and> copy c n hi (Some (vs ! i)) = Ok hi' y
                    \<and> assignTo y (Elem_ty t) = Some (ocs ! i) \<and> prefix hi' h'))"
    using v' len ph by blast
qed


theorem slice_array_copy_witness:
  "allocates_only (\<lambda>tg. None)
   \<and> copy (\<lambda>tg. None) 2 [CArr [VBasic (TBasic BInt) (SInt 7), VBasic (TBasic BInt) (SInt 8)]]
         (Some (VSlice (TSlice (TBasic BInt)) (Some (SliceHdr 0 0 2 2))))
       = Ok [CArr [VBasic (TBasic BInt) (SInt 7), VBasic (TBasic BInt) (SInt 8)],
             CArr [VBasic (TBasic BInt) (SInt 7), VBasic (TBasic BInt) (SInt 8)]]
            (VSlice (TSlice (TBasic BInt)) (Some (SliceHdr 1 0 2 2)))
   \<and> Index_slice [CArr [VBasic (TBasic BInt) (SInt 7), VBasic (TBasic BInt) (SInt 8)]]
        (SliceHdr 0 0 2 2) 1 = Some (VBasic (TBasic BInt) (SInt 8))
   \<and> (\<exists>hi hi' y. prefix [CArr [VBasic (TBasic BInt) (SInt 7), VBasic (TBasic BInt) (SInt 8)]] hi
          \<and> copy (\<lambda>tg. None) 1 hi (Some (VBasic (TBasic BInt) (SInt 8))) = Ok hi' y
          \<and> assignTo y (TBasic BInt) = Some (VBasic (TBasic BInt) (SInt 8)))
   \<and> copy (\<lambda>tg. None) 2 []
         (Some (VArray (TArray 2 (TBasic BInt)) [VBasic (TBasic BInt) (SInt 7), VBasic (TBasic BInt) (SInt 8)]))
       = Ok [] (VArray (TArray 2 (TBasic BInt)) [VBasic (TBasic BInt) (SInt 7), VBasic (TBasic BInt) (SInt 8)])"
proof -
  let ?c = "\<lambda>tg::string. None :: regval option"
  let ?i7 = "VBasic (TBasic BInt) (SInt 7)" and ?i8 = "VBasic (TBasic BInt) (SInt 8)"
  let ?t = "TSlice (TBasic BInt)" and ?s = "SliceHdr 0 0 2 2"
  let ?h = "[CArr [?i7, ?i8]]"
  let ?h' = "[CArr [?i7, ?i8], CArr [?i7, ?i8]]"
  let ?v' = "VSlice ?t (Some (SliceHdr 1 0 2 2))"
  have ao: "allocates_only ?c" by (simp add: allocates_only_def)
  have k: "kind_ok (VSlice ?t (Some ?s))" by simp
  have ok: "copy ?c (Suc 1) ?h (Some (VSlice ?t (Some ?s))) = Ok ?h' ?v'"
    by code_simp
  have ka: "kind_ok (VArray (TArray 2 (TBasic BInt)) [?i7, ?i8])" by simp
  have oka: "copy ?c (Suc 1) [] (Some (VArray (TArray 2 (TBasic BInt)) [?i7, ?i8]))
      = Ok [] (VArray (TArray 2 (TBasic BInt)) [?i7, ?i8])"
    by code_simp
  have ix: "Index_slice ?h ?s 1 = Some ?i8"
    by (simp add: Index_slice_def lookup_def)
  from slice_array_copy [OF ao, of ?t ?s 1 ?h ?h' ?v'] k ok
  obtain ys where lk: "lookup ?h' (length ?h) = Some (CArr ys)"
    and el: "\<forall>i<slen ?s. \<exists>hi hi' x y.
                  prefix ?h hi \<and> Index_slice hi ?s i = Some x
                  \<and> (sbase ?s < length ?h \<longrightarrow> Index_slice ?h ?s i = Some x)
                  \<and> copy ?c 1 hi (Some x) = Ok hi' y
                  \<and> assignTo y (Elem_ty ?t) = Some (ys ! i)
                  \<and> length hi' \<le> length ?h'
                  \<and> (\<forall>b<length hi'. b \<noteq> length ?h \<longrightarrow> lookup ?h' b = lookup hi' b)"
    by blast
  have ys: "ys = [?i7, ?i8]" using lk by (simp add: lookup_def)
  have one: "(1::nat) < slen ?s" by simp
  from el one obtain hi hi' x y where p: "prefix ?h hi"
    and o: "sbase ?s < length ?h \<longrightarrow> Index_slice ?h ?s 1 = Some x"
    and r: "copy ?c 1 hi (Some x) = Ok hi' y"
    and as: "assignTo y (Elem_ty ?t) = Some (ys ! 1)"
    by blast
  have x: "x = ?i8" using o ix by simp
  have e1: "\<exists>hi hi' y. prefix ?h hi \<and> copy ?c 1 hi (Some ?i8) = Ok hi' y
          \<and> assignTo y (TBasic BInt) = Some ?i8"
    using p r as unfolding x ys by auto
  show ?thesis using ao ok ix e1 oka by (simp add: numeral_2_eq_2)
qed

text \<open>
  The claim as stated is false at a slice of length 1 and capacity 2: the copy
  has capacity 1.
\<close>

theorem slice_array_copy_counterexample:
  "copy (\<lambda>tg. None) 2 [CArr [VBasic (TBasic BInt) (SInt 7), VBasic (TBasic BInt) (SInt 0)]]
     (Some (VSlice (TSlice (TBasic BInt)) (Some (SliceHdr 0 0 1 2))))
   = Ok [CArr [VBasic (TBasic BInt) (SInt 7), VBasic (TBasic BInt) (SInt 0)],
         CArr [VBasic (TBasic BInt) (SInt 7)]]
       (VSlice (TSlice (TBasic BInt)) (Some (SliceHdr 1 0 1 1)))
   \<and> scap (SliceHdr 1 0 1 1) \<noteq> scap (SliceHdr 0 0 1 2)"
  by (simp add: numeral_2_eq_2 copy_dispatch MakeSlice_def alloc_def Index_slice_def lookup_def
       copy_passthrough passthrough_kinds_iff Append_def assignTo_def directlyAssignable_def)


end
